theory Spec2Isabelle
  imports Complex_Main
begin

section \<open>Python values and failures\<close>

text \<open>
  The simulator is the class \<open>SlotGameSimulator\<close> of \<open>slot-simulator.py\<close>.  Its
  numbers are Python integers and floats; they are modelled as exact rationals, so
  rounding is outside the model.  Every exception the code can raise is a value of
  the type \<open>error\<close>, and a computation that can raise returns \<open>error + 'a\<close>.
\<close>

datatype error = ZeroDivisionError | IndexError | ValueError | TypeError

type_synonym 'a result = "error + 'a"

definition ebind :: "'a result \<Rightarrow> ('a \<Rightarrow> 'b result) \<Rightarrow> 'b result" where
  "ebind m f = (case m of Inl e \<Rightarrow> Inl e | Inr x \<Rightarrow> f x)"

text \<open>A list comprehension whose element expression can raise.\<close>

fun emap :: "('a \<Rightarrow> 'b result) \<Rightarrow> 'a list \<Rightarrow> 'b list result" where
  "emap f [] = Inr []"
| "emap f (x # xs) = ebind (f x) (\<lambda>y. ebind (emap f xs) (\<lambda>ys. Inr (y # ys)))"

text \<open>A \<open>for\<close> loop over a list whose body updates loop variables and can raise.\<close>

fun efold :: "('a \<Rightarrow> 's \<Rightarrow> 's result) \<Rightarrow> 'a list \<Rightarrow> 's \<Rightarrow> 's result" where
  "efold f [] s = Inr s"
| "efold f (x # xs) s = ebind (f x s) (efold f xs)"

text \<open>Subscription \<open>xs[i]\<close>: a negative index counts from the end.\<close>

definition py_index :: "'a list \<Rightarrow> int \<Rightarrow> nat result" where
  "py_index xs i =
     (if 0 \<le> i \<and> i < int (length xs) then Inr (nat i)
      else if i < 0 \<and> - int (length xs) \<le> i then Inr (nat (int (length xs) + i))
      else Inl IndexError)"

definition py_nth :: "'a list \<Rightarrow> int \<Rightarrow> 'a result" where
  "py_nth xs i = ebind (py_index xs i) (\<lambda>k. Inr (xs ! k))"

text \<open>Item assignment \<open>xs[i] = v\<close>.\<close>

definition py_set :: "'a list \<Rightarrow> int \<Rightarrow> 'a \<Rightarrow> 'a list result" where
  "py_set xs i v = ebind (py_index xs i) (\<lambda>k. Inr (xs[k := v]))"

text \<open>True division \<open>x / y\<close>.\<close>

definition py_truediv :: "rat \<Rightarrow> rat \<Rightarrow> rat result" where
  "py_truediv x y = (if y = 0 then Inl ZeroDivisionError else Inr (x / y))"

text \<open>\<open>math.sqrt\<close> raises \<open>ValueError\<close> (math domain error) below zero.\<close>

definition math_sqrt :: "rat \<Rightarrow> real result" where
  "math_sqrt x = (if x < 0 then Inl ValueError else Inr (sqrt (of_rat x)))"

text \<open>
  \<open>random.randrange(n)\<close> raises \<open>ValueError\<close> for an empty range.  The generator is
  outside the program: its raw draw \<open>d\<close> is an input, reduced into the range.
\<close>

definition randrange :: "nat \<Rightarrow> nat \<Rightarrow> nat result" where
  "randrange n d = (if n = 0 then Inl ValueError else Inr (d mod n))"

text \<open>
  A value of the paytable data: a number, or anything else (the annotation
  \<open>"note": "Only appears ..."\<close> of the base configuration is a string).
\<close>

datatype pyval = Num rat | Other string

text \<open>Using a value as a number in arithmetic or in a comparison with a number.\<close>

definition num :: "pyval \<Rightarrow> rat result" where
  "num v = (case v of Num r \<Rightarrow> Inr r | Other s \<Rightarrow> Inl TypeError)"

subsection \<open>Strings\<close>

text \<open>
  A character of a string is a code point below 256.  Among these, \<open>str.isdigit\<close>
  accepts the ten decimal digits and the superscripts two, three and one (U+00B2,
  U+00B3, U+00B9), which are digits without being decimal digits.
\<close>

definition digit_chars :: "char list" where
  "digit_chars = ''0123456789''"

definition superscript_chars :: "char list" where
  "superscript_chars = [CHR 0xB2, CHR 0xB3, CHR 0xB9]"

definition isdigit :: "string \<Rightarrow> bool" where
  "isdigit s = (s \<noteq> [] \<and> (\<forall>c \<in> set s. c \<in> set digit_chars \<or> c \<in> set superscript_chars))"

text \<open>The value of a digit is its position in \<open>digit_chars\<close>.\<close>

definition digit_val :: "char \<Rightarrow> nat" where
  "digit_val c = length (takeWhile (\<lambda>d. d \<noteq> c) digit_chars)"

definition int_of_str :: "string \<Rightarrow> nat" where
  "int_of_str s = foldl (\<lambda>n c. 10 * n + digit_val c) 0 s"

text \<open>
  \<open>int(s)\<close> for a string of digits: the number it writes when every character is a
  decimal digit, and \<open>ValueError\<close> (invalid literal) otherwise.  The code calls it
  only on strings that \<open>str.isdigit\<close> has accepted, where it raises on a superscript.
\<close>

definition py_int :: "string \<Rightarrow> nat result" where
  "py_int s =
     (if s \<noteq> [] \<and> (\<forall>c \<in> set s. c \<in> set digit_chars) then Inr (int_of_str s)
      else Inl ValueError)"

fun str_nat :: "nat \<Rightarrow> string" where
  "str_nat n = (if n < 10 then [digit_chars ! n]
                else str_nat (n div 10) @ [digit_chars ! (n mod 10)])"


text \<open>\<open>a % n\<close> on non-negative integers.\<close>

definition py_mod :: "nat \<Rightarrow> nat \<Rightarrow> nat result" where
  "py_mod a n = (if n = 0 then Inl ZeroDivisionError else Inr (a mod n))"

text \<open>\<open>d.get(key, default)\<close> on an optional configuration entry.\<close>

definition dict_get :: "'a option \<Rightarrow> 'a \<Rightarrow> 'a" where
  "dict_get entry dflt = (case entry of None \<Rightarrow> dflt | Some v \<Rightarrow> v)"

section \<open>The simulator object\<close>

type_synonym screen = "string list list"

text \<open>
  \<open>payout_contributions\<close> is a \<open>defaultdict(float)\<close>.  Its keys are the combination
  keys; \<open>None\<close> is the key \<open>_check_line_win\<close> returns when no combination was found.
\<close>

type_synonym ledger = "string option \<rightharpoonup> rat"

type_synonym raw_paytable = "(string \<times> (string \<times> pyval) list) list"

text \<open>The \<open>config\<close> dictionary; an entry read with \<open>config.get\<close> may be absent.\<close>

record config =
  cfg_paytable :: raw_paytable
  cfg_virtual_reel_strips :: "string list list"
  cfg_bet_per_line :: "rat option"
  cfg_num_lines :: "rat option"
  cfg_base_bet_for_paytable_display :: "rat option"
  cfg_wild_symbol :: "string option"
  cfg_scatter_symbols :: "string list option"
  cfg_wild_reels :: "int list option"
  cfg_star_scatter_reels :: "int list option"

text \<open>
  The attributes of \<open>self\<close>.  \<open>regular_symbols\<close> is a Python set: it is kept as the
  list of its elements in iteration order.  That order follows the hashes of the
  strings, which change from one process to the next; it is given by a function
  \<open>rank\<close> of the process, smaller ranks first.  Every order of a finished set is the
  order of some \<open>rank\<close>, and the code iterates \<open>regular_symbols\<close> only once
  \<open>_parse_paytable\<close> has finished it.
\<close>

record simulator =
  paytable :: raw_paytable
  virtual_reel_strips :: "string list list"
  num_reels :: nat
  num_rows :: nat
  bet_per_line :: rat
  num_lines :: rat
  total_bet_per_spin :: rat
  base_bet_for_paytable_display :: rat
  base_bet_per_line_display :: rat
  wild_symbol :: string
  scatter_symbols :: "string list"
  wild_reels :: "int list"
  star_scatter_reels :: "int list"
  line_pays :: "(string \<times> nat) \<rightharpoonup> pyval"
  scatter_pays :: "string \<rightharpoonup> (nat \<rightharpoonup> pyval)"
  regular_symbols :: "string list"
  paylines :: "(int \<times> int) list list"
  total_payout :: rat
  sum_of_squared_payouts :: rat
  total_spins :: int
  total_winning_spins :: nat
  max_win :: rat
  payout_contributions :: ledger

subsection \<open>\<open>_parse_paytable\<close>\<close>

text \<open>\<open>s.add(x)\<close> on a set kept as the list of its elements in iteration order.\<close>

definition set_add :: "('a \<Rightarrow> nat) \<Rightarrow> 'a \<Rightarrow> 'a list \<Rightarrow> 'a list" where
  "set_add rank x xs = (if x \<in> set xs then xs else insort_key rank x xs)"

text \<open>
  \<open>{int(k): v for k, v in data.items() if k.isdigit()}\<close>: for each item the filter,
  then the key expression, which can raise.
\<close>

definition digit_dict :: "(string \<times> pyval) list \<Rightarrow> (nat \<rightharpoonup> pyval) result" where
  "digit_dict data =
     efold (\<lambda>(k, v) d. if isdigit k then ebind (py_int k) (\<lambda>n. Inr (d(n \<mapsto> v))) else Inr d)
       data Map.empty"

text \<open>The body of the loop over \<open>data.items()\<close> for a regular symbol.\<close>

definition store_pay :: "string \<Rightarrow> string \<times> pyval \<Rightarrow> simulator \<Rightarrow> simulator result" where
  "store_pay symbol kv self =
     (case kv of (count_str, payout) \<Rightarrow>
        if isdigit count_str
        then ebind (py_int count_str) (\<lambda>n.
               Inr (self\<lparr>line_pays := (line_pays self)((symbol, n) \<mapsto> payout)\<rparr>))
        else Inr self)"

text \<open>The body of the first loop, for one item of \<open>self.paytable\<close>.\<close>

definition parse_item :: "(string \<Rightarrow> nat) \<Rightarrow> string \<times> (string \<times> pyval) list \<Rightarrow> simulator
    \<Rightarrow> simulator result" where
  "parse_item rank item self =
     (case item of (symbol, data) \<Rightarrow>
        if symbol = wild_symbol self then Inr self
        else if symbol \<in> set (scatter_symbols self)
        then ebind (digit_dict data) (\<lambda>d.
               Inr (self\<lparr>scatter_pays := (scatter_pays self)(symbol \<mapsto> d)\<rparr>))
        else efold (store_pay symbol) data
               (self\<lparr>regular_symbols := set_add rank symbol (regular_symbols self)\<rparr>))"

text \<open>The body of the second loop.\<close>

definition add_regular :: "(string \<Rightarrow> nat) \<Rightarrow> string \<Rightarrow> simulator \<Rightarrow> simulator" where
  "add_regular rank sym_name self =
     (if sym_name \<notin> set (scatter_symbols self) \<and> sym_name \<noteq> wild_symbol self
      then self\<lparr>regular_symbols := set_add rank sym_name (regular_symbols self)\<rparr>
      else self)"

definition parse_paytable :: "(string \<Rightarrow> nat) \<Rightarrow> simulator \<Rightarrow> simulator result" where
  "parse_paytable rank self =
     ebind (efold (parse_item rank) (paytable self)
              (self\<lparr>line_pays := Map.empty, scatter_pays := Map.empty, regular_symbols := []\<rparr>))
       (\<lambda>self. Inr (fold (add_regular rank) (map fst (paytable self)) self))"

subsection \<open>\<open>_define_paylines\<close> and \<open>__init__\<close>\<close>

definition define_paylines :: "(int \<times> int) list list" where
  "define_paylines =
     [[(0, 1), (1, 1), (2, 1), (3, 1), (4, 1)],
      [(0, 0), (1, 0), (2, 0), (3, 0), (4, 0)],
      [(0, 2), (1, 2), (2, 2), (3, 2), (4, 2)],
      [(0, 0), (1, 1), (2, 2), (3, 1), (4, 0)],
      [(0, 2), (1, 1), (2, 0), (3, 1), (4, 2)],
      [(0, 0), (1, 0), (2, 1), (3, 2), (4, 2)],
      [(0, 2), (1, 2), (2, 1), (3, 0), (4, 0)],
      [(0, 1), (1, 2), (2, 2), (3, 2), (4, 1)],
      [(0, 1), (1, 0), (2, 0), (3, 0), (4, 1)],
      [(0, 0), (1, 1), (2, 1), (3, 1), (4, 0)]]"

text \<open>
  The attributes as \<open>__init__\<close> has assigned them when it calls \<open>_parse_paytable\<close>;
  the attributes it assigns afterwards are shown with their initial values.
\<close>

definition attributes :: "config \<Rightarrow> rat \<Rightarrow> simulator" where
  "attributes cfg base_per_line =
     \<lparr>paytable = cfg_paytable cfg,
      virtual_reel_strips = cfg_virtual_reel_strips cfg,
      num_reels = length (cfg_virtual_reel_strips cfg),
      num_rows = 3,
      bet_per_line = dict_get (cfg_bet_per_line cfg) 1,
      num_lines = dict_get (cfg_num_lines cfg) 10,
      total_bet_per_spin = dict_get (cfg_bet_per_line cfg) 1 * dict_get (cfg_num_lines cfg) 10,
      base_bet_for_paytable_display = dict_get (cfg_base_bet_for_paytable_display cfg) 100,
      base_bet_per_line_display = base_per_line,
      wild_symbol = dict_get (cfg_wild_symbol cfg) ''Wild'',
      scatter_symbols =
        dict_get (cfg_scatter_symbols cfg) [''DollarScatter'', ''StarScatter''],
      wild_reels = map (\<lambda>r. r - 1) (dict_get (cfg_wild_reels cfg) [2, 3, 4]),
      star_scatter_reels =
        map (\<lambda>r. r - 1) (dict_get (cfg_star_scatter_reels cfg) [1, 3, 5]),
      line_pays = Map.empty,
      scatter_pays = Map.empty,
      regular_symbols = [],
      paylines = [],
      total_payout = 0,
      sum_of_squared_payouts = 0,
      total_spins = 0,
      total_winning_spins = 0,
      max_win = 0,
      payout_contributions = Map.empty\<rparr>"

text \<open>The constructor, in a process whose set order is \<open>rank\<close>.\<close>

definition init :: "(string \<Rightarrow> nat) \<Rightarrow> config \<Rightarrow> simulator result" where
  "init rank cfg =
     ebind (py_truediv (dict_get (cfg_base_bet_for_paytable_display cfg) 100)
              (dict_get (cfg_num_lines cfg) 10))
       (\<lambda>base_per_line.
          ebind (parse_paytable rank (attributes cfg base_per_line)) (\<lambda>self.
            Inr (self\<lparr>paylines := define_paylines\<rparr>)))"

subsection \<open>\<open>_spin_reels\<close>\<close>

text \<open>\<open>draw k\<close> is the generator's raw draw for the \<open>k\<close>-th strip of this spin.\<close>

definition spin_reels :: "simulator \<Rightarrow> (nat \<Rightarrow> nat) \<Rightarrow> screen result" where
  "spin_reels self draw =
     ebind (emap (\<lambda>(k, strip). randrange (length strip) (draw k))
              (enumerate 0 (virtual_reel_strips self)))
       (\<lambda>stop_positions.
          emap (\<lambda>i.
            ebind (py_nth (virtual_reel_strips self) (int i)) (\<lambda>reel_strip.
            ebind (py_nth stop_positions (int i)) (\<lambda>start_index.
              emap (\<lambda>j. ebind (py_mod (start_index + j) (length reel_strip))
                           (\<lambda>k. py_nth reel_strip (int k)))
                [0..<num_rows self])))
            [0..<num_reels self])"

subsection \<open>\<open>_apply_expanding_wilds\<close>\<close>

text \<open>
  The columns of the working copy are fresh lists, so the assignment
  \<open>current_visible_symbols[reel_idx][row_idx] = self.wild_symbol\<close> changes one cell of
  one column of the copy.
\<close>

definition set_cell :: "screen \<Rightarrow> int \<Rightarrow> int \<Rightarrow> string \<Rightarrow> screen result" where
  "set_cell cur reel_idx row_idx v =
     ebind (py_nth cur reel_idx) (\<lambda>col.
     ebind (py_set col row_idx v) (\<lambda>col'.
       py_set cur reel_idx col'))"

definition expand_reel :: "simulator \<Rightarrow> int \<Rightarrow> screen \<Rightarrow> screen result" where
  "expand_reel self reel_idx cur =
     ebind (py_nth cur reel_idx) (\<lambda>col.
       if list_ex (\<lambda>sym. sym = wild_symbol self) col
       then efold (\<lambda>row_idx c. set_cell c reel_idx (int row_idx) (wild_symbol self))
              [0..<num_rows self] cur
       else Inr cur)"

definition apply_expanding_wilds :: "simulator \<Rightarrow> screen \<Rightarrow> screen result" where
  "apply_expanding_wilds self visible_symbols =
     efold (expand_reel self) (wild_reels self) (map (\<lambda>col. col) visible_symbols)"


subsection \<open>\<open>_apply_expanding_wilds\<close> on list objects\<close>

text \<open>
  A screen is a list of column objects, and the method assigns to cells of columns.
  Whether the caller's screen survives depends on which objects are shared, so the
  method is modelled a second time on a store of list objects: a column is an
  address, \<open>cells\<close> gives the contents of every object and \<open>next_free\<close> is the first
  address not yet in use.
\<close>

record store =
  cells :: "nat \<Rightarrow> string list"
  next_free :: nat

text \<open>A new list object with the given contents.\<close>

definition new_list :: "string list \<Rightarrow> store \<Rightarrow> nat \<times> store" where
  "new_list col h =
     (next_free h, h\<lparr>cells := (cells h)(next_free h := col), next_free := next_free h + 1\<rparr>)"

text \<open>\<open>[col[:] for col in visible_symbols]\<close>: every slice is a new object.\<close>

fun copy_columns :: "nat list \<Rightarrow> store \<Rightarrow> nat list \<times> store" where
  "copy_columns [] h = ([], h)"
| "copy_columns (a # rest) h =
     (case new_list (cells h a) h of
        (a', h') \<Rightarrow> (case copy_columns rest h' of (rest', h'') \<Rightarrow> (a' # rest', h'')))"

definition set_cell_obj :: "nat list \<Rightarrow> int \<Rightarrow> int \<Rightarrow> string \<Rightarrow> store \<Rightarrow> store result" where
  "set_cell_obj cur reel_idx row_idx v h =
     ebind (py_nth cur reel_idx) (\<lambda>a.
     ebind (py_set (cells h a) row_idx v) (\<lambda>col'.
       Inr (h\<lparr>cells := (cells h)(a := col')\<rparr>)))"

definition expand_reel_obj :: "simulator \<Rightarrow> nat list \<Rightarrow> int \<Rightarrow> store \<Rightarrow> store result" where
  "expand_reel_obj self cur reel_idx h =
     ebind (py_nth cur reel_idx) (\<lambda>a.
       if list_ex (\<lambda>sym. sym = wild_symbol self) (cells h a)
       then efold (\<lambda>row_idx h'. set_cell_obj cur reel_idx (int row_idx) (wild_symbol self) h')
              [0..<num_rows self] h
       else Inr h)"

definition apply_expanding_wilds_obj :: "simulator \<Rightarrow> nat list \<Rightarrow> store \<Rightarrow> (nat list \<times> store) result" where
  "apply_expanding_wilds_obj self visible_symbols h =
     (case copy_columns visible_symbols h of
        (cur, h1) \<Rightarrow>
          ebind (efold (expand_reel_obj self cur) (wild_reels self) h1) (\<lambda>h2. Inr (cur, h2)))"

text \<open>The screen a list of column objects stands for.\<close>

definition contents :: "store \<Rightarrow> nat list \<Rightarrow> screen" where
  "contents h refs = map (cells h) refs"

subsection \<open>\<open>_check_line_win\<close>\<close>

text \<open>The inner loop over \<open>range(self.num_reels)\<close>, left by \<open>break\<close> at the first mismatch.\<close>

fun count_consecutive :: "simulator \<Rightarrow> string list \<Rightarrow> string \<Rightarrow> nat list \<Rightarrow> nat \<Rightarrow> nat result" where
  "count_consecutive self line_symbols target_symbol [] consecutive_count =
     Inr consecutive_count"
| "count_consecutive self line_symbols target_symbol (i # rest) consecutive_count =
     (case py_nth line_symbols (int i) of
        Inl e \<Rightarrow> Inl e
      | Inr symbol_on_line \<Rightarrow>
          if symbol_on_line = target_symbol \<or>
             (symbol_on_line = wild_symbol self \<and> target_symbol \<notin> set (scatter_symbols self))
          then count_consecutive self line_symbols target_symbol rest (consecutive_count + 1)
          else Inr consecutive_count)"

definition min_match :: "string \<Rightarrow> nat" where
  "min_match target_symbol = (if target_symbol = ''Seven'' then 2 else 3)"

text \<open>\<open>range(consecutive_count, min_match - 1, -1)\<close>.\<close>

definition count_range :: "nat \<Rightarrow> nat \<Rightarrow> nat list" where
  "count_range consecutive_count m = rev [m..<consecutive_count + 1]"

definition combo_key :: "string \<Rightarrow> nat \<Rightarrow> string" where
  "combo_key target_symbol count_match = target_symbol @ '' x'' @ str_nat count_match"

text \<open>
  The loop over the counts, left by \<open>break\<close> at the first count found in
  \<open>self.line_pays\<close>; the pair is
  \<open>(best_raw_payout_on_line, best_combo_key_on_line)\<close>.
\<close>

fun scan_counts :: "simulator \<Rightarrow> string \<Rightarrow> nat list \<Rightarrow> rat \<times> string option
    \<Rightarrow> (rat \<times> string option) result" where
  "scan_counts self target_symbol [] best = Inr best"
| "scan_counts self target_symbol (count_match # rest) best =
     (case line_pays self (target_symbol, count_match) of
        None \<Rightarrow> scan_counts self target_symbol rest best
      | Some v \<Rightarrow>
          (case num v of
             Inl e \<Rightarrow> Inl e
           | Inr raw_payout \<Rightarrow>
               if raw_payout > fst best
               then Inr (raw_payout, Some (combo_key target_symbol count_match))
               else Inr best))"

text \<open>The body of the loop over \<open>self.regular_symbols\<close>.\<close>

definition check_symbol :: "simulator \<Rightarrow> string list \<Rightarrow> string \<Rightarrow> rat \<times> string option
    \<Rightarrow> (rat \<times> string option) result" where
  "check_symbol self line_symbols target_symbol best =
     ebind (count_consecutive self line_symbols target_symbol [0..<num_reels self] 0)
       (\<lambda>consecutive_count.
          scan_counts self target_symbol
            (count_range consecutive_count (min_match target_symbol)) best)"

definition check_line_win :: "simulator \<Rightarrow> string list \<Rightarrow> (rat \<times> string option) result" where
  "check_line_win self line_symbols =
     efold (check_symbol self line_symbols) (regular_symbols self) (0, None)"

subsection \<open>\<open>_calculate_spin_payout\<close>\<close>

text \<open>\<open>d[key] += x\<close> on a \<open>defaultdict(float)\<close>.\<close>

definition credit :: "string option \<Rightarrow> rat \<Rightarrow> ledger \<Rightarrow> ledger" where
  "credit key x d = d(key \<mapsto> (case d key of None \<Rightarrow> 0 | Some v \<Rightarrow> v) + x)"

text \<open>
  The loop variables of one evaluation: \<open>current_spin_payout\<close>, \<open>is_winning_spin\<close> and
  the contents of \<open>self.payout_contributions\<close>, the only attribute the method changes.
\<close>

type_synonym spin_acc = "rat \<times> bool \<times> ledger"

definition scatter_key :: "string \<Rightarrow> nat \<Rightarrow> string" where
  "scatter_key symbol n = symbol @ '' x'' @ str_nat n @ '' (Scatter)''"

text \<open>The common body of the two \<open>if\<close> statements that pay a scatter.\<close>

definition pay_scatter :: "simulator \<Rightarrow> string \<Rightarrow> nat \<Rightarrow> spin_acc \<Rightarrow> spin_acc result" where
  "pay_scatter self symbol n acc =
     (case scatter_pays self symbol of
        None \<Rightarrow> Inr acc
      | Some tbl \<Rightarrow>
          (case tbl n of
             None \<Rightarrow> Inr acc
           | Some v \<Rightarrow>
               ebind (num v) (\<lambda>raw_payout.
               ebind (py_truediv raw_payout (base_bet_for_paytable_display self)) (\<lambda>q.
                 let scaled_payout = q * total_bet_per_spin self
                 in (case acc of (current_spin_payout, is_winning_spin, contributions) \<Rightarrow>
                       Inr (current_spin_payout + scaled_payout, True,
                            credit (Some (scatter_key symbol n)) scaled_payout
                              contributions))))))"

definition dollar_scatter_count :: "screen \<Rightarrow> nat" where
  "dollar_scatter_count original_visible_symbols =
     sum_list (map (\<lambda>col. count_list col ''DollarScatter'') original_visible_symbols)"

definition star_scatter_count :: "simulator \<Rightarrow> screen \<Rightarrow> nat result" where
  "star_scatter_count self original_visible_symbols =
     efold (\<lambda>r_idx n.
              ebind (py_nth original_visible_symbols r_idx) (\<lambda>col.
                Inr (if list_ex (\<lambda>sym. sym = ''StarScatter'') col then n + 1 else n)))
       (star_scatter_reels self) 0"

definition line_symbols_of :: "screen \<Rightarrow> (int \<times> int) list \<Rightarrow> string list result" where
  "line_symbols_of expanded_visible_symbols payline =
     emap (\<lambda>(reel_idx, row_idx).
             ebind (py_nth expanded_visible_symbols reel_idx) (\<lambda>col. py_nth col row_idx))
       payline"

text \<open>The body of the loop over \<open>self.paylines\<close>.\<close>

definition pay_line :: "simulator \<Rightarrow> screen \<Rightarrow> (int \<times> int) list \<Rightarrow> spin_acc \<Rightarrow> spin_acc result" where
  "pay_line self expanded_visible_symbols payline acc =
     ebind (line_symbols_of expanded_visible_symbols payline) (\<lambda>line_symbols.
     ebind (check_line_win self line_symbols) (\<lambda>(raw_line_payout, winning_combo_key).
       if raw_line_payout > 0
       then ebind (py_truediv raw_line_payout (base_bet_per_line_display self)) (\<lambda>q.
              let scaled_line_payout = q * bet_per_line self
              in (case acc of (current_spin_payout, is_winning_spin, contributions) \<Rightarrow>
                    Inr (current_spin_payout + scaled_line_payout, True,
                         credit winning_combo_key scaled_line_payout contributions)))
       else Inr acc))"

text \<open>The scatter part of the method: the two scatter symbols, on the original screen.\<close>

definition pay_scatters :: "simulator \<Rightarrow> screen \<Rightarrow> spin_acc \<Rightarrow> spin_acc result" where
  "pay_scatters self original_visible_symbols acc =
     ebind (pay_scatter self ''DollarScatter'' (dollar_scatter_count original_visible_symbols)
              acc) (\<lambda>acc1.
     ebind (star_scatter_count self original_visible_symbols) (\<lambda>star_count.
       pay_scatter self ''StarScatter'' star_count acc1))"

text \<open>The method on its loop variables, from a given content of the ledger.\<close>

definition evaluate_spin :: "simulator \<Rightarrow> screen \<Rightarrow> ledger \<Rightarrow> spin_acc result" where
  "evaluate_spin self original_visible_symbols contributions =
     ebind (apply_expanding_wilds self original_visible_symbols) (\<lambda>expanded_visible_symbols.
     ebind (pay_scatters self original_visible_symbols (0, False, contributions)) (\<lambda>acc.
       efold (pay_line self expanded_visible_symbols) (paylines self) acc))"

definition calculate_spin_payout :: "simulator \<Rightarrow> screen \<Rightarrow> ((rat \<times> bool) \<times> simulator) result" where
  "calculate_spin_payout self original_visible_symbols =
     ebind (evaluate_spin self original_visible_symbols (payout_contributions self))
       (\<lambda>(current_spin_payout, is_winning_spin, contributions).
          Inr ((current_spin_payout, is_winning_spin),
               self\<lparr>payout_contributions := contributions\<rparr>))"

subsection \<open>\<open>run_simulation\<close>\<close>

text \<open>
  The figures \<open>run_simulation\<close> prints after the loop.  The progress line, the timing
  and the formatting of the contribution breakdown are console output and are left out.
\<close>

record report =
  rep_total_spins :: int
  rep_total_bet :: rat
  rep_total_payout :: rat
  rtp :: rat
  variance :: rat
  std_dev :: real
  hit_frequency :: rat
  average_win_amount :: rat
  rep_max_win :: rat
  rep_contributions :: ledger

text \<open>The body of the loop over \<open>range(num_spins)\<close>.\<close>

definition spin_once :: "(nat \<Rightarrow> nat) \<Rightarrow> simulator \<Rightarrow> simulator result" where
  "spin_once draw self =
     ebind (spin_reels self draw) (\<lambda>original_visible_symbols.
     ebind (calculate_spin_payout self original_visible_symbols)
       (\<lambda>((spin_payout, is_winning_spin), self1).
          let self2 = self1\<lparr>total_payout := total_payout self1 + spin_payout,
                             sum_of_squared_payouts :=
                               sum_of_squared_payouts self1 + spin_payout ^ 2\<rparr>;
              self3 = (if is_winning_spin
                       then self2\<lparr>total_winning_spins := total_winning_spins self2 + 1\<rparr>
                       else self2);
              self4 = (if spin_payout > max_win self3
                       then self3\<lparr>max_win := spin_payout\<rparr> else self3)
          in Inr self4))"

text \<open>The section \<open>Calculate Results\<close>.\<close>

definition calculate_results :: "simulator \<Rightarrow> report result" where
  "calculate_results self =
     ebind (py_truediv (total_payout self)
              (of_int (total_spins self) * total_bet_per_spin self)) (\<lambda>q.
     ebind (py_truediv (total_payout self) (of_int (total_spins self)))
       (\<lambda>average_payout_per_spin.
     ebind (py_truediv (sum_of_squared_payouts self) (of_int (total_spins self)))
       (\<lambda>average_squared_payout_per_spin.
     let var = average_squared_payout_per_spin - average_payout_per_spin ^ 2 in
     ebind (math_sqrt var) (\<lambda>sd.
     ebind (py_truediv (of_nat (total_winning_spins self)) (of_int (total_spins self)))
       (\<lambda>h.
     ebind (if total_winning_spins self > 0
            then py_truediv (total_payout self) (of_nat (total_winning_spins self))
            else Inr 0) (\<lambda>avg_win.
       Inr \<lparr>rep_total_spins = total_spins self,
            rep_total_bet = of_int (total_spins self) * total_bet_per_spin self,
            rep_total_payout = total_payout self,
            rtp = q * 100,
            variance = var,
            std_dev = sd,
            hit_frequency = h * 100,
            average_win_amount = avg_win,
            rep_max_win = max_win self,
            rep_contributions = payout_contributions self\<rparr>))))))"

text \<open>\<open>rng i k\<close> is the generator's raw draw for strip \<open>k\<close> in spin \<open>i\<close>.\<close>

definition run_spins :: "(nat \<Rightarrow> nat \<Rightarrow> nat) \<Rightarrow> int \<Rightarrow> simulator \<Rightarrow> simulator result" where
  "run_spins rng num_spins self =
     efold (\<lambda>i. spin_once (rng i)) [0..<nat num_spins] self"

definition run_simulation :: "simulator \<Rightarrow> int \<Rightarrow> (nat \<Rightarrow> nat \<Rightarrow> nat) \<Rightarrow> report result" where
  "run_simulation self num_spins rng =
     ebind (run_spins rng num_spins
              (self\<lparr>total_payout := 0, sum_of_squared_payouts := 0, total_spins := num_spins,
                    total_winning_spins := 0, max_win := 0,
                    payout_contributions := Map.empty\<rparr>))
       calculate_results"


subsection \<open>The main block\<close>

text \<open>\<open>BASE_GAME_CONFIG\<close>, completed with the reel strips read from the reel file.\<close>

definition base_game_config :: "string list list \<Rightarrow> config" where
  "base_game_config strips =
     \<lparr>cfg_paytable =
        [(''Seven'', [(''5'', Num 50000), (''4'', Num 2500), (''3'', Num 500), (''2'', Num 100)]),
         (''Watermelon'', [(''5'', Num 7000), (''4'', Num 1200), (''3'', Num 400)]),
         (''Grapes'', [(''5'', Num 7000), (''4'', Num 1200), (''3'', Num 400)]),
         (''Bell'', [(''5'', Num 2000), (''4'', Num 400), (''3'', Num 200)]),
         (''Plum'', [(''5'', Num 1500), (''4'', Num 300), (''3'', Num 100)]),
         (''Orange'', [(''5'', Num 1500), (''4'', Num 300), (''3'', Num 100)]),
         (''Cherry'', [(''5'', Num 1500), (''4'', Num 300), (''3'', Num 100)]),
         (''Lemon'', [(''5'', Num 1500), (''4'', Num 300), (''3'', Num 100)]),
         (''DollarScatter'', [(''5'', Num 10000), (''4'', Num 2000), (''3'', Num 500)]),
         (''StarScatter'',
            [(''3'', Num 2000), (''note'', Other ''Only appears on 1st, 3rd and 5th reels.'')])],
      cfg_virtual_reel_strips = strips,
      cfg_bet_per_line = Some 1,
      cfg_num_lines = Some 10,
      cfg_base_bet_for_paytable_display = Some 100,
      cfg_wild_symbol = Some ''Wild'',
      cfg_scatter_symbols = Some [''DollarScatter'', ''StarScatter''],
      cfg_wild_reels = Some [2, 3, 4],
      cfg_star_scatter_reels = Some [1, 3, 5]\<rparr>"

text \<open>Constructing the simulator from a configuration and running it.\<close>

definition simulate :: "(string \<Rightarrow> nat) \<Rightarrow> config \<Rightarrow> int \<Rightarrow> (nat \<Rightarrow> nat \<Rightarrow> nat) \<Rightarrow> report result" where
  "simulate rank cfg num_spins rng =
     ebind (init rank cfg) (\<lambda>simulator. run_simulation simulator num_spins rng)"

section \<open>The payline rule in the words of the specification\<close>

text \<open>
  The run of consecutive matches of a symbol from reel 0: a cell matches if it is the
  symbol or the wild symbol.
\<close>

definition spec_run_length :: "string \<Rightarrow> string \<Rightarrow> string list \<Rightarrow> nat" where
  "spec_run_length wild S line = length (takeWhile (\<lambda>c. c = S \<or> c = wild) line)"

text \<open>The minimum count: 3, except 2 for the premium symbol.\<close>

definition spec_min_count :: "string \<Rightarrow> string \<Rightarrow> nat" where
  "spec_min_count premium S = (if S = premium then 2 else 3)"

text \<open>
  Counting down from the run length to the minimum, the first count that has an entry
  in the line pays, with its raw payout.
\<close>

definition spec_candidate :: "simulator \<Rightarrow> string list \<Rightarrow> string \<Rightarrow> (nat \<times> rat) option" where
  "spec_candidate self line S =
     (case find (\<lambda>n. line_pays self (S, n) \<noteq> None)
             (rev [spec_min_count ''Seven'' S..<
                   spec_run_length (wild_symbol self) S line + 1]) of
        None \<Rightarrow> None
      | Some n \<Rightarrow>
          (case line_pays self (S, n) of
             Some (Num r) \<Rightarrow> Some (n, r)
           | _ \<Rightarrow> None))"

section \<open>The scatter rule in the words of the specification\<close>

text \<open>Grid count: the number of cells of the whole screen that hold the symbol.\<close>

definition spec_grid_count :: "string \<Rightarrow> screen \<Rightarrow> nat" where
  "spec_grid_count S scr = length (filter (\<lambda>c. c = S) (concat scr))"

text \<open>
  Reel presence: the number of reels of the restricted subset on which the symbol is
  in at least one visible cell.
\<close>

definition spec_reel_presence :: "string \<Rightarrow> int list \<Rightarrow> screen \<Rightarrow> nat" where
  "spec_reel_presence S reels scr =
     length (filter (\<lambda>r. S \<in> set (scr ! nat r)) (remdups reels))"

text \<open>
  The credit of a scatter symbol for a count: none if its paytable has no entry for
  the count, else the key of the symbol and count with
  \<open>raw payout / base display bet * total bet per spin\<close>.
\<close>

definition spec_scatter_credit :: "simulator \<Rightarrow> string \<Rightarrow> nat \<Rightarrow> (string option \<times> rat) list" where
  "spec_scatter_credit self S n =
     (case scatter_pays self S of
        None \<Rightarrow> []
      | Some tbl \<Rightarrow>
          (case tbl n of
             Some (Num raw) \<Rightarrow>
               [(Some (scatter_key S n),
                 raw / base_bet_for_paytable_display self * total_bet_per_spin self)]
           | _ \<Rightarrow> []))"

section \<open>Concrete inputs\<close>

text \<open>The set order of the examples: shorter names first.\<close>

definition name_length :: "string \<Rightarrow> nat" where
  "name_length s = length s"

text \<open>Five short reel strips, and a generator whose raw draws are all zero.\<close>

definition demo_strips :: "string list list" where
  "demo_strips =
     [[''Seven'', ''Bell'', ''Wild''],
      [''Wild'', ''Bell'', ''Seven'', ''DollarScatter''],
      [''Seven'', ''Bell''],
      [''Bell''],
      [''Seven'', ''StarScatter'', ''Bell'']]"

definition zero_draws :: "nat \<Rightarrow> nat \<Rightarrow> nat" where
  "zero_draws i k = 0"

text \<open>The same strips with the third reel left empty.\<close>

definition gap_strips :: "string list list" where
  "gap_strips = [[''Seven'', ''Bell'', ''Wild''], [''Bell''], [], [''Bell''], [''Seven'']]"

text \<open>
  A configuration whose paytable has an entry for the wild symbol and a negative payout.
\<close>

definition unchecked_config :: config where
  "unchecked_config =
     (base_game_config demo_strips)
       \<lparr>cfg_paytable :=
          [(''Wild'', [(''3'', Num 100)]),
           (''Bell'', [(''3'', Num (- 5))]),
           (''DollarScatter'', [(''3'', Num 500)])]\<rparr>"

text \<open>
  The base configuration with the paytable \<open>{"Bell": {"\<twosuperior>": 5}}\<close>, whose one key
  is the superscript two.
\<close>

definition superscript_config :: config where
  "superscript_config =
     (base_game_config demo_strips)\<lparr>cfg_paytable := [(''Bell'', [([CHR 0xB2], Num 5)])]\<rparr>"

text \<open>
  A store holding the five columns of a screen at the addresses 0 to 4; the second
  and the fifth column hold a wild symbol.
\<close>

definition demo_store :: store where
  "demo_store =
     \<lparr>cells = (\<lambda>a. [])
        (0 := [''Seven'', ''Bell'', ''Bell''],
         1 := [''Wild'', ''Bell'', ''Seven''],
         2 := [''Seven'', ''Bell'', ''Seven''],
         3 := [''Bell'', ''Bell'', ''Bell''],
         4 := [''Seven'', ''Wild'', ''Bell'']),
      next_free = 5\<rparr>"

text \<open>
  The screen that \<open>demo_strips\<close> shows at the stop positions 0, and the top row as a
  payline.
\<close>

definition demo_screen :: screen where
  "demo_screen =
     [[''Seven'', ''Bell'', ''Wild''],
      [''Wild'', ''Bell'', ''Seven''],
      [''Seven'', ''Bell'', ''Seven''],
      [''Bell'', ''Bell'', ''Bell''],
      [''Seven'', ''StarScatter'', ''Bell'']]"

definition top_row :: "(int \<times> int) list" where
  "top_row = [(0, 0), (1, 0), (2, 0), (3, 0), (4, 0)]"

text \<open>\<open>demo_screen\<close> after wild expansion on the reels 2, 3 and 4.\<close>

definition demo_expanded :: screen where
  "demo_expanded =
     [[''Seven'', ''Bell'', ''Wild''],
      [''Wild'', ''Wild'', ''Wild''],
      [''Seven'', ''Bell'', ''Seven''],
      [''Bell'', ''Bell'', ''Bell''],
      [''Seven'', ''StarScatter'', ''Bell'']]"

text \<open>
  A small game: the first reel shows three DollarScatter cells at every stop, the
  paytable pays 500 for three of them.
\<close>

definition scatter_strips :: "string list list" where
  "scatter_strips = [[''DollarScatter''], [''Bell''], [''Bell''], [''Bell''], [''StarScatter'']]"

definition scatter_config :: config where
  "scatter_config =
     (base_game_config scatter_strips)
       \<lparr>cfg_paytable :=
          [(''Bell'', [(''3'', Num 200)]),
           (''DollarScatter'', [(''3'', Num 500)]),
           (''StarScatter'', [(''3'', Num 2000)])]\<rparr>"

definition scatter_screen :: screen where
  "scatter_screen =
     [[''DollarScatter'', ''DollarScatter'', ''DollarScatter''],
      [''Bell'', ''Bell'', ''Bell''],
      [''Bell'', ''Bell'', ''Bell''],
      [''Bell'', ''Bell'', ''Bell''],
      [''StarScatter'', ''StarScatter'', ''StarScatter'']]"

text \<open>The same game with every payout zero.\<close>

definition zero_config :: config where
  "zero_config =
     (base_game_config scatter_strips)
       \<lparr>cfg_paytable :=
          [(''Bell'', [(''3'', Num 0)]),
           (''DollarScatter'', [(''3'', Num 0)]),
           (''StarScatter'', [(''3'', Num 0)])]\<rparr>"

text \<open>
  A game that configures a scatter symbol of its own, \<open>Bonus\<close>, paying 500 for three
  cells, and a screen that shows three of them.
\<close>

definition bonus_config :: config where
  "bonus_config =
     (base_game_config scatter_strips)
       \<lparr>cfg_paytable := [(''Bonus'', [(''3'', Num 500)]), (''Bell'', [(''3'', Num 200)])],
        cfg_scatter_symbols := Some [''Bonus'']\<rparr>"

definition bonus_screen :: screen where
  "bonus_screen =
     [[''Bonus'', ''Bonus'', ''Bonus''],
      [''Bell'', ''Bell'', ''Bell''],
      [''Bell'', ''Bell'', ''Bell''],
      [''Bell'', ''Bell'', ''Bell''],
      [''Bell'', ''Bell'', ''Bell'']]"

text \<open>\<open>unchecked_config\<close> with another entry for the wild symbol.\<close>

definition rewild_paytable :: raw_paytable where
  "rewild_paytable =
     [(''Bell'', [(''3'', Num (- 5))]),
      (''Wild'', [(''5'', Num 777), (''2'', Num 1)]),
      (''DollarScatter'', [(''3'', Num 500)])]"

text \<open>
  The same game with every payout zero and scatter entries for counts that its screens
  never show: four DollarScatter cells, and StarScatter on two reels.
\<close>

definition zero_miss_config :: config where
  "zero_miss_config =
     (base_game_config scatter_strips)
       \<lparr>cfg_paytable :=
          [(''Bell'', [(''3'', Num 0)]),
           (''DollarScatter'', [(''4'', Num 0)]),
           (''StarScatter'', [(''2'', Num 0)])]\<rparr>"

text \<open>The game with every payout zero and no scatter symbol in the paytable.\<close>

definition zero_line_config :: config where
  "zero_line_config =
     (base_game_config scatter_strips)\<lparr>cfg_paytable := [(''Bell'', [(''3'', Num 0)])]\<rparr>"

section \<open>Auxiliary notions\<close>

text \<open>The simulator \<open>s\<close> with the three lookup structures of \<open>t\<close>.\<close>

definition with_lookups :: "simulator \<Rightarrow> simulator \<Rightarrow> simulator" where
  "with_lookups s t =
     s\<lparr>line_pays := line_pays t, scatter_pays := scatter_pays t,
       regular_symbols := regular_symbols t\<rparr>"

text \<open>
  A key that \<open>str.isdigit\<close> accepts and \<open>int\<close> rejects, and the keys of that kind
  that \<open>_parse_paytable\<close> reads: those in the entries of the symbols other than the wild
  symbol.
\<close>

definition bad_key :: "string \<Rightarrow> bool" where
  "bad_key k = (isdigit k \<and> py_int k = Inl ValueError)"

definition entry_bad_keys :: "string \<Rightarrow> string \<times> (string \<times> pyval) list \<Rightarrow> string list" where
  "entry_bad_keys wild item =
     (case item of (symbol, data) \<Rightarrow>
        if symbol = wild then [] else filter bad_key (map fst data))"

definition bad_keys :: "simulator \<Rightarrow> string list" where
  "bad_keys self = concat (map (entry_bad_keys (wild_symbol self)) (paytable self))"

text \<open>
  The screen \<open>scr\<close> with the columns expanded that hold a wild symbol and whose
  reel index is in \<open>seen\<close>.
\<close>

definition expanded :: "simulator \<Rightarrow> int list \<Rightarrow> screen \<Rightarrow> screen" where
  "expanded self seen scr =
     map (\<lambda>(i, col).
            if int i \<in> set seen \<and> wild_symbol self \<in> set col
            then replicate (num_rows self) (wild_symbol self) else col)
       (enumerate 0 scr)"

text \<open>
  Keeping the better of the best combination so far and the candidate of a symbol.
\<close>

definition keep_best :: "(nat \<times> rat) option \<Rightarrow> string \<Rightarrow> rat \<times> string option \<Rightarrow> rat \<times> string option" where
  "keep_best cand S best =
     (case cand of
        None \<Rightarrow> best
      | Some (n, r) \<Rightarrow> if r > fst best then (r, Some (combo_key S n)) else best)"

text \<open>A list of credits applied to a ledger, in order.\<close>

definition apply_credits :: "(string option \<times> rat) list \<Rightarrow> ledger \<Rightarrow> ledger" where
  "apply_credits cs l = fold (\<lambda>(k, x). credit k x) cs l"

text \<open>
  A step on the loop variables that fails whatever they hold, and a step that adds a
  payout, a winning flag and a list of credits whatever they hold.
\<close>

definition fails :: "(spin_acc \<Rightarrow> spin_acc result) \<Rightarrow> error \<Rightarrow> bool" where
  "fails f e \<longleftrightarrow> (\<forall>acc. f acc = Inl e)"

definition adds :: "(spin_acc \<Rightarrow> spin_acc result) \<Rightarrow> rat \<Rightarrow> bool \<Rightarrow> (string option \<times> rat) list \<Rightarrow> bool" where
  "adds f dp dw cs \<longleftrightarrow> (\<forall>p w l. f (p, w, l) = Inr (p + dp, w \<or> dw, apply_credits cs l))"

text \<open>
  Two simulators with the same rules: they agree on every attribute that the
  evaluation of a spin reads, the ledger apart.
\<close>

definition same_rules :: "simulator \<Rightarrow> simulator \<Rightarrow> bool" where
  "same_rules s t \<longleftrightarrow>
     num_reels s = num_reels t \<and> num_rows s = num_rows t \<and>
     bet_per_line s = bet_per_line t \<and> total_bet_per_spin s = total_bet_per_spin t \<and>
     base_bet_for_paytable_display s = base_bet_for_paytable_display t \<and>
     base_bet_per_line_display s = base_bet_per_line_display t \<and>
     wild_symbol s = wild_symbol t \<and> scatter_symbols s = scatter_symbols t \<and>
     wild_reels s = wild_reels t \<and> star_scatter_reels s = star_scatter_reels t \<and>
     line_pays s = line_pays t \<and>
     scatter_pays s ''DollarScatter'' = scatter_pays t ''DollarScatter'' \<and>
     scatter_pays s ''StarScatter'' = scatter_pays t ''StarScatter'' \<and>
     regular_symbols s = regular_symbols t \<and> paylines s = paylines t"

text \<open>The simulator with other values of the attributes that \<open>run_simulation\<close> resets.\<close>

definition with_totals :: "simulator \<Rightarrow> rat \<Rightarrow> rat \<Rightarrow> int \<Rightarrow> nat \<Rightarrow> rat \<Rightarrow> ledger \<Rightarrow> simulator" where
  "with_totals self t q n k m l =
     self\<lparr>total_payout := t, sum_of_squared_payouts := q, total_spins := n,
          total_winning_spins := k, max_win := m, payout_contributions := l\<rparr>"

text \<open>
  A screen on which a scatter paytable has an entry for the count that the evaluation
  looks up: that of DollarScatter for the number of its cells, or that of StarScatter for
  the number of restricted reels that show it.  A spin hits such an entry when its
  screen does, and \<open>hit_spins\<close> counts the spins of a run that do.
\<close>

definition scatter_entry_hit :: "simulator \<Rightarrow> screen \<Rightarrow> bool" where
  "scatter_entry_hit self scr \<longleftrightarrow>
     (case scatter_pays self ''DollarScatter'' of
        None \<Rightarrow> False
      | Some tbl \<Rightarrow> tbl (dollar_scatter_count scr) \<noteq> None) \<or>
     (case scatter_pays self ''StarScatter'' of
        None \<Rightarrow> False
      | Some tbl \<Rightarrow>
          (case star_scatter_count self scr of
             Inl e \<Rightarrow> False
           | Inr star_count \<Rightarrow> tbl star_count \<noteq> None))"

definition spin_hits :: "simulator \<Rightarrow> (nat \<Rightarrow> nat) \<Rightarrow> bool" where
  "spin_hits self draw =
     (case spin_reels self draw of Inl e \<Rightarrow> False | Inr scr \<Rightarrow> scatter_entry_hit self scr)"

definition hit_spins :: "simulator \<Rightarrow> (nat \<Rightarrow> nat \<Rightarrow> nat) \<Rightarrow> int \<Rightarrow> nat" where
  "hit_spins self rng num_spins =
     length (filter (\<lambda>i. spin_hits self (rng i)) [0..<nat num_spins])"

text \<open>
  A game in which every spin pays a tenth of a credit: fifteen DollarScatter cells on
  every screen pay 1 at the base bet of 100, and the total bet is 10.
\<close>

definition tenth_config :: config where
  "tenth_config =
     (base_game_config
        [[''DollarScatter''], [''DollarScatter''], [''DollarScatter''],
         [''DollarScatter''], [''DollarScatter'']])
       \<lparr>cfg_paytable := [(''DollarScatter'', [(''15'', Num 1)])]\<rparr>"

text \<open>
  The simulator of that game after three spins in double-precision arithmetic: the
  totals are the doubles that the three additions of \<open>0.1\<close> and of \<open>0.1 ** 2\<close>
  produce, written as fractions (\<open>0.30000000000000004\<close> and \<open>0.030000000000000006\<close>).
\<close>

definition tenth_totals :: simulator where
  "tenth_totals =
     with_totals (projr (init name_length tenth_config))
       (1351079888211149 / 4503599627370496)
       (4323455642275677 / 144115188075855872)
       3 3
       (3602879701896397 / 36028797018963968)
       [Some ''DollarScatter x15 (Scatter)'' \<mapsto> 1351079888211149 / 4503599627370496]"

section \<open>Verification\<close>

text \<open>
  The equation of \<open>str_nat\<close> rewrites a call into a term with a call in it. It is
  taken out of the simplifier's rules and used only where it is named.
\<close>

declare str_nat.simps [simp del]

subsection \<open>Sequencing\<close>

lemma ebind_Inl [simp]: "ebind (Inl e) f = Inl e"
  by (simp add: ebind_def)

lemma ebind_Inr [simp]: "ebind (Inr x) f = f x"
  by (simp add: ebind_def)

lemma ebind_eq_Inr_iff: "ebind m f = Inr y \<longleftrightarrow> (\<exists>x. m = Inr x \<and> f x = Inr y)"
  by (cases m) simp_all

lemma ebind_eq_Inl_iff:
  "ebind m f = Inl e \<longleftrightarrow> m = Inl e \<or> (\<exists>x. m = Inr x \<and> f x = Inl e)"
  by (cases m) auto

lemma efold_append: "efold f (xs @ ys) s = ebind (efold f xs s) (efold f ys)"
  by (induction xs arbitrary: s) (simp_all add: ebind_def split: sum.splits)

lemma efold_refines:
  assumes "\<And>x s. map_sum id D (f x s) = g x (D s)"
  shows "map_sum id D (efold f xs s) = efold g xs (D s)"
proof (induction xs arbitrary: s)
  case Nil
  show ?case by simp
next
  case (Cons x xs)
  show ?case
  proof (cases "f x s")
    case (Inl e)
    with assms [of x s] have "g x (D s) = Inl e" by simp
    with Inl show ?thesis by simp
  next
    case (Inr s')
    with assms [of x s] have "g x (D s) = Inr (D s')" by simp
    with Inr Cons.IH [of s'] show ?thesis by simp
  qed
qed

lemma efold_preserves:
  assumes "\<And>x s s'. f x s = Inr s' \<Longrightarrow> P s \<Longrightarrow> P s'"
    and "P s" and "efold f xs s = Inr s'"
  shows "P s'"
  using assms(2,3)
proof (induction xs arbitrary: s)
  case Nil
  then show ?case by simp
next
  case (Cons x xs)
  from Cons.prems(2) obtain s1 where 1: "f x s = Inr s1" and 2: "efold f xs s1 = Inr s'"
    by (auto simp: ebind_eq_Inr_iff)
  from assms(1) [OF 1 Cons.prems(1)] have "P s1" .
  from Cons.IH [OF this 2] show ?case .
qed

lemma ebind_return [simp]: "ebind m Inr = m"
  by (cases m) simp_all

lemma efold_single: "efold f [x] = f x"
proof
  fix s
  have "efold f [] = Inr" by (simp add: fun_eq_iff)
  then show "efold f [x] s = f x s" by simp
qed

subsection \<open>What \<open>_parse_paytable\<close> and \<open>__init__\<close> leave alone\<close>

lemma with_lookups_same [simp]: "with_lookups s s = s"
  by (simp add: with_lookups_def)

lemma with_lookups_twice [simp]: "with_lookups (with_lookups s t) u = with_lookups s u"
  by (simp add: with_lookups_def)

lemma with_lookups_fields [simp]:
  "paytable (with_lookups s t) = paytable s"
  "virtual_reel_strips (with_lookups s t) = virtual_reel_strips s"
  "num_reels (with_lookups s t) = num_reels s"
  "num_rows (with_lookups s t) = num_rows s"
  "bet_per_line (with_lookups s t) = bet_per_line s"
  "num_lines (with_lookups s t) = num_lines s"
  "total_bet_per_spin (with_lookups s t) = total_bet_per_spin s"
  "base_bet_for_paytable_display (with_lookups s t) = base_bet_for_paytable_display s"
  "base_bet_per_line_display (with_lookups s t) = base_bet_per_line_display s"
  "wild_symbol (with_lookups s t) = wild_symbol s"
  "scatter_symbols (with_lookups s t) = scatter_symbols s"
  "wild_reels (with_lookups s t) = wild_reels s"
  "star_scatter_reels (with_lookups s t) = star_scatter_reels s"
  "paylines (with_lookups s t) = paylines s"
  "total_payout (with_lookups s t) = total_payout s"
  "sum_of_squared_payouts (with_lookups s t) = sum_of_squared_payouts s"
  "total_spins (with_lookups s t) = total_spins s"
  "total_winning_spins (with_lookups s t) = total_winning_spins s"
  "max_win (with_lookups s t) = max_win s"
  "payout_contributions (with_lookups s t) = payout_contributions s"
  "line_pays (with_lookups s t) = line_pays t"
  "scatter_pays (with_lookups s t) = scatter_pays t"
  "regular_symbols (with_lookups s t) = regular_symbols t"
  by (simp_all add: with_lookups_def)

lemma store_pay_frame: "store_pay symbol kv s = Inr s' \<Longrightarrow> s' = with_lookups s s'"
  by (cases kv) (auto simp: store_pay_def with_lookups_def ebind_eq_Inr_iff split: if_splits)

lemma fold_frame:
  assumes "\<And>x s. f x s = with_lookups s (f x s)"
  shows "fold f xs s = with_lookups s (fold f xs s)"
proof (induction xs arbitrary: s)
  case Nil
  show ?case by simp
next
  case (Cons x xs)
  have "fold f (x # xs) s = fold f xs (f x s)" by simp
  also have "\<dots> = with_lookups (f x s) (fold f xs (f x s))" by (rule Cons.IH)
  also have "\<dots> = with_lookups (with_lookups s (f x s)) (fold f xs (f x s))"
    using assms [of x s] by simp
  also have "\<dots> = with_lookups s (fold f (x # xs) s)" by simp
  finally show ?case .
qed

lemma efold_frame:
  assumes step: "\<And>x s s'. f x s = Inr s' \<Longrightarrow> s' = with_lookups s s'"
    and run: "efold f xs s = Inr s'"
  shows "s' = with_lookups s s'"
proof (rule efold_preserves [where P = "\<lambda>t. t = with_lookups s t", OF _ _ run])
  show "s = with_lookups s s" by simp
next
  fix x t t'
  assume 1: "f x t = Inr t'" and 2: "t = with_lookups s t"
  have "t' = with_lookups t t'" using 1 by (rule step)
  also have "\<dots> = with_lookups (with_lookups s t) t'" using 2 by simp
  also have "\<dots> = with_lookups s t'" by simp
  finally show "t' = with_lookups s t'" .
qed

lemma parse_item_frame:
  assumes "parse_item rank item s = Inr s'"
  shows "s' = with_lookups s s'"
proof (cases item)
  case (Pair symbol data)
  show ?thesis
  proof (cases "symbol = wild_symbol s \<or> symbol \<in> set (scatter_symbols s)")
    case True
    then show ?thesis using Pair assms
      by (auto simp: parse_item_def with_lookups_def ebind_eq_Inr_iff split: if_splits)
  next
    case False
    let ?s0 = "s\<lparr>regular_symbols := set_add rank symbol (regular_symbols s)\<rparr>"
    have "efold (store_pay symbol) data ?s0 = Inr s'"
      using False Pair assms by (simp add: parse_item_def)
    then have "s' = with_lookups ?s0 s'"
      by (rule efold_frame [rotated]) (rule store_pay_frame)
    also have "\<dots> = with_lookups s s'" by (simp add: with_lookups_def)
    finally show ?thesis .
  qed
qed

lemma add_regular_frame: "add_regular rank nm s = with_lookups s (add_regular rank nm s)"
  by (simp add: add_regular_def with_lookups_def)

lemma parse_paytable_frame:
  assumes "parse_paytable rank s = Inr s'"
  shows "s' = with_lookups s s'"
proof -
  let ?s0 = "s\<lparr>line_pays := Map.empty, scatter_pays := Map.empty, regular_symbols := []\<rparr>"
  from assms obtain s1 where 1: "efold (parse_item rank) (paytable s) ?s0 = Inr s1"
    and 2: "s' = fold (add_regular rank) (map fst (paytable s1)) s1"
    by (auto simp: parse_paytable_def ebind_eq_Inr_iff)
  have f1: "s1 = with_lookups ?s0 s1"
    using 1 by (rule efold_frame [rotated]) (rule parse_item_frame)
  have "s' = with_lookups s1 s'"
    unfolding 2 by (rule fold_frame) (rule add_regular_frame)
  also have "\<dots> = with_lookups (with_lookups ?s0 s1) s'" using f1 by simp
  also have "\<dots> = with_lookups ?s0 s'" by simp
  also have "\<dots> = with_lookups s s'" by (simp add: with_lookups_def)
  finally show ?thesis .
qed

lemma frame_setup:
  assumes "s' = with_lookups s s'"
  shows "wild_symbol s' = wild_symbol s"
    and "scatter_symbols s' = scatter_symbols s"
    and "paytable s' = paytable s"
proof -
  have "wild_symbol s' = wild_symbol (with_lookups s s')"
    and "scatter_symbols s' = scatter_symbols (with_lookups s s')"
    and "paytable s' = paytable (with_lookups s s')"
    using assms by simp_all
  then show "wild_symbol s' = wild_symbol s"
    and "scatter_symbols s' = scatter_symbols s"
    and "paytable s' = paytable s"
    by simp_all
qed

lemmas parse_item_setup = frame_setup [OF parse_item_frame]

lemma parse_loop_setup:
  assumes "efold (parse_item rank) items s = Inr s'"
  shows "wild_symbol s' = wild_symbol s"
    and "scatter_symbols s' = scatter_symbols s"
    and "paytable s' = paytable s"
proof -
  have "s' = with_lookups s s'"
    using assms by (rule efold_frame [rotated]) (rule parse_item_frame)
  then show "wild_symbol s' = wild_symbol s"
    and "scatter_symbols s' = scatter_symbols s"
    and "paytable s' = paytable s"
    by (rule frame_setup)+
qed

lemma parse_paytable_eq:
  "parse_paytable rank s =
     map_sum id (\<lambda>s1. fold (add_regular rank) (map fst (paytable s)) s1)
       (efold (parse_item rank) (paytable s)
          (s\<lparr>line_pays := Map.empty, scatter_pays := Map.empty, regular_symbols := []\<rparr>))"
proof (cases "efold (parse_item rank) (paytable s)
          (s\<lparr>line_pays := Map.empty, scatter_pays := Map.empty, regular_symbols := []\<rparr>)")
  case (Inl e)
  then show ?thesis by (simp add: parse_paytable_def)
next
  case (Inr s1)
  from parse_loop_setup(3) [OF Inr] have "paytable s1 = paytable s" by simp
  with Inr show ?thesis by (simp add: parse_paytable_def)
qed

subsection \<open>When \<open>_parse_paytable\<close> raises\<close>

lemma py_int_cases: "py_int k = Inr (int_of_str k) \<or> py_int k = Inl ValueError"
  by (simp add: py_int_def)

lemma digit_loop_returns:
  "filter bad_key (map fst data) = [] \<Longrightarrow>
   \<exists>d. efold (\<lambda>(k, v) d. if isdigit k then ebind (py_int k) (\<lambda>n. Inr (d(n \<mapsto> v))) else Inr d)
          data d0 = Inr d"
  (is "_ \<Longrightarrow> \<exists>d. efold ?f data d0 = Inr d")
proof (induction data arbitrary: d0)
  case Nil
  show ?case by simp
next
  case (Cons kv data)
  obtain k v where kv: "kv = (k, v)" by (cases kv)
  from Cons.prems have nb: "\<not> bad_key k" and rest: "filter bad_key (map fst data) = []"
    by (auto simp: kv split: if_splits)
  show ?case
  proof (cases "isdigit k")
    case True
    with nb py_int_cases [of k] have "py_int k = Inr (int_of_str k)" by (auto simp: bad_key_def)
    with True have "efold ?f (kv # data) d0 = efold ?f data (d0(int_of_str k \<mapsto> v))"
      by (simp add: kv)
    then show ?thesis using Cons.IH [OF rest] by simp
  next
    case False
    then have "efold ?f (kv # data) d0 = efold ?f data d0" by (simp add: kv)
    then show ?thesis using Cons.IH [OF rest] by simp
  qed
qed

lemma digit_loop_raises:
  "filter bad_key (map fst data) \<noteq> [] \<Longrightarrow>
   efold (\<lambda>(k, v) d. if isdigit k then ebind (py_int k) (\<lambda>n. Inr (d(n \<mapsto> v))) else Inr d)
     data d0 = Inl ValueError"
  (is "_ \<Longrightarrow> efold ?f data d0 = _")
proof (induction data arbitrary: d0)
  case Nil
  then show ?case by simp
next
  case (Cons kv data)
  obtain k v where kv: "kv = (k, v)" by (cases kv)
  show ?case
  proof (cases "bad_key k")
    case True
    then show ?thesis by (simp add: kv bad_key_def)
  next
    case False
    with Cons.prems have rest: "filter bad_key (map fst data) \<noteq> []" by (simp add: kv)
    show ?thesis
    proof (cases "isdigit k")
      case True
      with False py_int_cases [of k] have "py_int k = Inr (int_of_str k)"
        by (auto simp: bad_key_def)
      with True have "efold ?f (kv # data) d0 = efold ?f data (d0(int_of_str k \<mapsto> v))"
        by (simp add: kv)
      then show ?thesis using Cons.IH [OF rest] by simp
    next
      case False
      then have "efold ?f (kv # data) d0 = efold ?f data d0" by (simp add: kv)
      then show ?thesis using Cons.IH [OF rest] by simp
    qed
  qed
qed

lemma store_loop_returns:
  "filter bad_key (map fst data) = [] \<Longrightarrow> \<exists>s'. efold (store_pay symbol) data s = Inr s'"
proof (induction data arbitrary: s)
  case Nil
  show ?case by simp
next
  case (Cons kv data)
  obtain k v where kv: "kv = (k, v)" by (cases kv)
  from Cons.prems have nb: "\<not> bad_key k" and rest: "filter bad_key (map fst data) = []"
    by (auto simp: kv split: if_splits)
  show ?case
  proof (cases "isdigit k")
    case True
    with nb py_int_cases [of k] have "py_int k = Inr (int_of_str k)" by (auto simp: bad_key_def)
    with True Cons.IH [OF rest] show ?thesis by (simp add: kv store_pay_def)
  next
    case False
    with Cons.IH [OF rest] show ?thesis by (simp add: kv store_pay_def)
  qed
qed

lemma store_loop_raises:
  "filter bad_key (map fst data) \<noteq> [] \<Longrightarrow> efold (store_pay symbol) data s = Inl ValueError"
proof (induction data arbitrary: s)
  case Nil
  then show ?case by simp
next
  case (Cons kv data)
  obtain k v where kv: "kv = (k, v)" by (cases kv)
  show ?case
  proof (cases "bad_key k")
    case True
    then show ?thesis by (simp add: kv bad_key_def store_pay_def)
  next
    case False
    with Cons.prems have rest: "filter bad_key (map fst data) \<noteq> []" by (simp add: kv)
    show ?thesis
    proof (cases "isdigit k")
      case True
      with False py_int_cases [of k] have "py_int k = Inr (int_of_str k)"
        by (auto simp: bad_key_def)
      with True Cons.IH [OF rest] show ?thesis by (simp add: kv store_pay_def)
    next
      case False
      with Cons.IH [OF rest] show ?thesis by (simp add: kv store_pay_def)
    qed
  qed
qed

lemma parse_item_returns:
  "entry_bad_keys (wild_symbol s) item = [] \<Longrightarrow> \<exists>s'. parse_item rank item s = Inr s'"
  using digit_loop_returns [of "snd item" Map.empty]
    store_loop_returns [of "snd item" "fst item"
      "s\<lparr>regular_symbols := set_add rank (fst item) (regular_symbols s)\<rparr>"]
  by (cases item) (auto simp: entry_bad_keys_def parse_item_def digit_dict_def split: if_splits)

lemma parse_item_raises:
  "entry_bad_keys (wild_symbol s) item \<noteq> [] \<Longrightarrow> parse_item rank item s = Inl ValueError"
  using digit_loop_raises [of "snd item" Map.empty]
    store_loop_raises [of "snd item" "fst item"
      "s\<lparr>regular_symbols := set_add rank (fst item) (regular_symbols s)\<rparr>"]
  by (cases item) (auto simp: entry_bad_keys_def parse_item_def digit_dict_def split: if_splits)

lemma parse_loop_returns:
  "concat (map (entry_bad_keys (wild_symbol s)) items) = [] \<Longrightarrow>
   \<exists>s'. efold (parse_item rank) items s = Inr s'"
proof (induction items arbitrary: s)
  case Nil
  show ?case by simp
next
  case (Cons item items)
  from Cons.prems have 1: "entry_bad_keys (wild_symbol s) item = []"
    and 2: "concat (map (entry_bad_keys (wild_symbol s)) items) = []" by simp_all
  from parse_item_returns [OF 1] obtain s1 where s1: "parse_item rank item s = Inr s1" by blast
  from parse_item_setup(1) [OF s1] 2
  have "concat (map (entry_bad_keys (wild_symbol s1)) items) = []" by simp
  from Cons.IH [OF this] s1 show ?case by simp
qed

lemma parse_loop_raises:
  "concat (map (entry_bad_keys (wild_symbol s)) items) \<noteq> [] \<Longrightarrow>
   efold (parse_item rank) items s = Inl ValueError"
proof (induction items arbitrary: s)
  case Nil
  then show ?case by simp
next
  case (Cons item items)
  show ?case
  proof (cases "entry_bad_keys (wild_symbol s) item = []")
    case False
    from parse_item_raises [OF this] show ?thesis by simp
  next
    case True
    from parse_item_returns [OF this] obtain s1 where s1: "parse_item rank item s = Inr s1"
      by blast
    from True Cons.prems have "concat (map (entry_bad_keys (wild_symbol s)) items) \<noteq> []"
      by simp
    with parse_item_setup(1) [OF s1]
    have "concat (map (entry_bad_keys (wild_symbol s1)) items) \<noteq> []" by simp
    from Cons.IH [OF this] s1 show ?thesis by simp
  qed
qed

lemma parse_paytable_returns:
  "bad_keys s = [] \<Longrightarrow> \<exists>s'. parse_paytable rank s = Inr s'"
  using parse_loop_returns [of
      "s\<lparr>line_pays := Map.empty, scatter_pays := Map.empty, regular_symbols := []\<rparr>"
      "paytable s" rank]
  by (auto simp: parse_paytable_eq bad_keys_def)

lemma parse_paytable_raises:
  "bad_keys s \<noteq> [] \<Longrightarrow> parse_paytable rank s = Inl ValueError"
  using parse_loop_raises [of
      "s\<lparr>line_pays := Map.empty, scatter_pays := Map.empty, regular_symbols := []\<rparr>"
      "paytable s" rank]
  by (simp add: parse_paytable_eq bad_keys_def)

subsection \<open>The attributes set by \<open>__init__\<close>\<close>

lemma init_eq:
  "init rank cfg =
     (if dict_get (cfg_num_lines cfg) 10 = 0 then Inl ZeroDivisionError
      else map_sum id (\<lambda>s. s\<lparr>paylines := define_paylines\<rparr>)
             (parse_paytable rank (attributes cfg
                (dict_get (cfg_base_bet_for_paytable_display cfg) 100 /
                 dict_get (cfg_num_lines cfg) 10))))"
  by (cases "parse_paytable rank (attributes cfg
                (dict_get (cfg_base_bet_for_paytable_display cfg) 100 /
                 dict_get (cfg_num_lines cfg) 10))")
    (simp_all add: init_def py_truediv_def)

lemma init_parsed:
  assumes "init rank cfg = Inr s"
  shows "\<exists>p. parse_paytable rank (attributes cfg
                (dict_get (cfg_base_bet_for_paytable_display cfg) 100 /
                 dict_get (cfg_num_lines cfg) 10)) = Inr p \<and>
             s = p\<lparr>paylines := define_paylines\<rparr> \<and> dict_get (cfg_num_lines cfg) 10 \<noteq> 0"
  using assms
  by (cases "parse_paytable rank (attributes cfg
                (dict_get (cfg_base_bet_for_paytable_display cfg) 100 /
                 dict_get (cfg_num_lines cfg) 10))")
    (auto simp: init_eq split: if_splits)

lemma init_fields:
  assumes "init rank cfg = Inr s"
  shows "virtual_reel_strips s = cfg_virtual_reel_strips cfg"
    and "num_reels s = length (cfg_virtual_reel_strips cfg)"
    and "num_rows s = 3"
    and "bet_per_line s = dict_get (cfg_bet_per_line cfg) 1"
    and "num_lines s = dict_get (cfg_num_lines cfg) 10"
    and "total_bet_per_spin s = dict_get (cfg_bet_per_line cfg) 1 * dict_get (cfg_num_lines cfg) 10"
    and "base_bet_for_paytable_display s = dict_get (cfg_base_bet_for_paytable_display cfg) 100"
    and "base_bet_per_line_display s =
           dict_get (cfg_base_bet_for_paytable_display cfg) 100 / dict_get (cfg_num_lines cfg) 10"
    and "dict_get (cfg_num_lines cfg) 10 \<noteq> 0"
    and "wild_symbol s = dict_get (cfg_wild_symbol cfg) ''Wild''"
    and "scatter_symbols s = dict_get (cfg_scatter_symbols cfg) [''DollarScatter'', ''StarScatter'']"
    and "wild_reels s = map (\<lambda>r. r - 1) (dict_get (cfg_wild_reels cfg) [2, 3, 4])"
    and "star_scatter_reels s = map (\<lambda>r. r - 1) (dict_get (cfg_star_scatter_reels cfg) [1, 3, 5])"
    and "paylines s = define_paylines"
    and "paytable s = cfg_paytable cfg"
    and "payout_contributions s = Map.empty"
proof -
  let ?r = "attributes cfg (dict_get (cfg_base_bet_for_paytable_display cfg) 100 /
                   dict_get (cfg_num_lines cfg) 10)"
  from init_parsed [OF assms] obtain p where p: "parse_paytable rank ?r = Inr p"
    and s: "s = p\<lparr>paylines := define_paylines\<rparr>"
    and nz: "dict_get (cfg_num_lines cfg) 10 \<noteq> 0" by blast
  have s': "s = (with_lookups ?r p)\<lparr>paylines := define_paylines\<rparr>"
    using s parse_paytable_frame [OF p] by simp
  show "virtual_reel_strips s = cfg_virtual_reel_strips cfg"
    and "num_reels s = length (cfg_virtual_reel_strips cfg)"
    and "num_rows s = 3"
    and "bet_per_line s = dict_get (cfg_bet_per_line cfg) 1"
    and "num_lines s = dict_get (cfg_num_lines cfg) 10"
    and "total_bet_per_spin s = dict_get (cfg_bet_per_line cfg) 1 * dict_get (cfg_num_lines cfg) 10"
    and "base_bet_for_paytable_display s = dict_get (cfg_base_bet_for_paytable_display cfg) 100"
    and "base_bet_per_line_display s =
           dict_get (cfg_base_bet_for_paytable_display cfg) 100 / dict_get (cfg_num_lines cfg) 10"
    and "wild_symbol s = dict_get (cfg_wild_symbol cfg) ''Wild''"
    and "scatter_symbols s = dict_get (cfg_scatter_symbols cfg) [''DollarScatter'', ''StarScatter'']"
    and "wild_reels s = map (\<lambda>r. r - 1) (dict_get (cfg_wild_reels cfg) [2, 3, 4])"
    and "star_scatter_reels s = map (\<lambda>r. r - 1) (dict_get (cfg_star_scatter_reels cfg) [1, 3, 5])"
    and "paylines s = define_paylines"
    and "paytable s = cfg_paytable cfg"
    and "payout_contributions s = Map.empty"
    unfolding s' by (simp_all add: attributes_def)
  show "dict_get (cfg_num_lines cfg) 10 \<noteq> 0" by (rule nz)
qed

lemma init_lookups:
  assumes "init rank cfg = Inr s"
  shows "\<exists>b p. parse_paytable rank (attributes cfg b) = Inr p \<and>
             line_pays s = line_pays p \<and> scatter_pays s = scatter_pays p \<and>
             regular_symbols s = regular_symbols p"
proof -
  from init_parsed [OF assms] obtain p where
    p: "parse_paytable rank (attributes cfg
          (dict_get (cfg_base_bet_for_paytable_display cfg) 100 /
           dict_get (cfg_num_lines cfg) 10)) = Inr p"
    and s: "s = p\<lparr>paylines := define_paylines\<rparr>" by blast
  from s have "line_pays s = line_pays p" "scatter_pays s = scatter_pays p"
    "regular_symbols s = regular_symbols p" by simp_all
  with p show ?thesis by blast
qed

lemma init_succeeds:
  assumes "dict_get (cfg_num_lines cfg) 10 \<noteq> 0" and "bad_keys (attributes cfg 0) = []"
  shows "\<exists>s. init rank cfg = Inr s"
proof -
  let ?b = "dict_get (cfg_base_bet_for_paytable_display cfg) 100 /
                 dict_get (cfg_num_lines cfg) 10"
  have "bad_keys (attributes cfg ?b) = bad_keys (attributes cfg 0)"
    by (simp add: bad_keys_def attributes_def)
  with assms(2) have "bad_keys (attributes cfg ?b) = []" by simp
  from parse_paytable_returns [OF this, of rank] obtain p
    where "parse_paytable rank (attributes cfg ?b) = Inr p" by blast
  with assms(1) show ?thesis by (simp add: init_eq)
qed

lemma digit_keys_good:
  "\<not> bad_key ''2''" "\<not> bad_key ''3''" "\<not> bad_key ''4''" "\<not> bad_key ''5''" "\<not> bad_key ''15''"
  "\<not> bad_key ''note''"
  by (simp_all add: bad_key_def isdigit_def py_int_def digit_chars_def superscript_chars_def)

lemma init_base_game_config: "\<exists>s. init rank (base_game_config strips) = Inr s"
  by (rule init_succeeds)
    (simp_all add: base_game_config_def dict_get_def bad_keys_def attributes_def
      entry_bad_keys_def digit_keys_good)

lemma init_base_game_config_projr:
  "init rank (base_game_config strips) = Inr (projr (init rank (base_game_config strips)))"
  using init_base_game_config [of rank strips] by auto

lemma base_game_total_bet:
  "total_bet_per_spin (projr (init rank (base_game_config strips))) = 10"
  using init_fields(6) [OF init_base_game_config_projr, of rank strips]
  by (simp add: base_game_config_def dict_get_def)

lemma base_game_strips:
  "virtual_reel_strips (projr (init rank (base_game_config strips))) = strips"
  using init_fields(1) [OF init_base_game_config_projr, of rank strips]
  by (simp add: base_game_config_def)

lemmas config_keys = bad_keys_def attributes_def entry_bad_keys_def digit_keys_good

lemma init_projr:
  assumes "dict_get (cfg_num_lines cfg) 10 \<noteq> 0" and "bad_keys (attributes cfg 0) = []"
  shows "init rank cfg = Inr (projr (init rank cfg))"
  using init_succeeds [OF assms, of rank] by auto

subsection \<open>Runs without a spin, and runs over an empty strip\<close>

lemma draw_stops_empty_strip:
  "[] \<in> set strips \<Longrightarrow>
   emap (\<lambda>(k, strip). randrange (length strip) (draw k)) (enumerate n strips) = Inl ValueError"
proof (induction strips arbitrary: n)
  case Nil
  then show ?case by simp
next
  case (Cons strip strips)
  show ?case
  proof (cases "strip = []")
    case True
    then show ?thesis by (simp add: randrange_def)
  next
    case False
    with Cons.prems have "[] \<in> set strips" by auto
    then have "emap (\<lambda>(k, strip). randrange (length strip) (draw k)) (enumerate (Suc n) strips)
      = Inl ValueError" by (rule Cons.IH)
    with False show ?thesis by (simp add: randrange_def)
  qed
qed

lemma spin_reels_empty_strip:
  "[] \<in> set (virtual_reel_strips self) \<Longrightarrow> spin_reels self draw = Inl ValueError"
  by (simp add: spin_reels_def draw_stops_empty_strip)

lemma run_spins_nonpositive: "num_spins \<le> 0 \<Longrightarrow> run_spins rng num_spins self = Inr self"
  by (simp add: run_spins_def)

lemma run_spins_empty_strip:
  assumes "0 < num_spins" and "[] \<in> set (virtual_reel_strips self)"
  shows "run_spins rng num_spins self = Inl ValueError"
proof -
  from assms(1) have "[0..<nat num_spins] = 0 # [Suc 0..<nat num_spins]"
    by (simp add: upt_conv_Cons)
  then show ?thesis
    using assms(2) by (simp add: run_spins_def spin_once_def spin_reels_empty_strip)
qed

lemma run_simulation_zero_spins: "run_simulation self 0 rng = Inl ZeroDivisionError"
  by (simp add: run_simulation_def run_spins_nonpositive calculate_results_def py_truediv_def)

lemma run_simulation_empty_strip:
  "0 < num_spins \<Longrightarrow> [] \<in> set (virtual_reel_strips self) \<Longrightarrow>
   run_simulation self num_spins rng = Inl ValueError"
  by (simp add: run_simulation_def run_spins_empty_strip)

lemma run_simulation_negative_spins:
  assumes "num_spins < 0" and "total_bet_per_spin self \<noteq> 0"
  shows "run_simulation self num_spins rng =
     Inr \<lparr>rep_total_spins = num_spins,
          rep_total_bet = of_int num_spins * total_bet_per_spin self,
          rep_total_payout = 0, rtp = 0, variance = 0, std_dev = 0, hit_frequency = 0,
          average_win_amount = 0, rep_max_win = 0, rep_contributions = Map.empty\<rparr>"
  using assms
  by (simp add: run_simulation_def run_spins_nonpositive calculate_results_def py_truediv_def
      math_sqrt_def)

text \<open>
  C4.  \<open>run_simulation\<close> checks nothing before the loop and has no configuration error
  of its own.  A spin count of zero fails when the results are calculated, by a
  division by zero, with no spin run and no report.  A positive spin count over a
  configuration with an empty reel strip fails in the stop draw of the first spin, by
  the \<open>ValueError\<close> of \<open>randrange\<close>, before any payout is evaluated and with no report.
  A negative spin count (with a total bet other than zero) runs no spin and returns the
  report of an empty run.
\<close>

theorem run_simulation_unvalidated:
  "(num_spins = 0 \<longrightarrow> run_simulation self num_spins rng = Inl ZeroDivisionError) \<and>
   (0 < num_spins \<and> [] \<in> set (virtual_reel_strips self) \<longrightarrow>
      spin_reels self (rng 0) = Inl ValueError \<and>
      run_simulation self num_spins rng = Inl ValueError) \<and>
   (num_spins < 0 \<and> total_bet_per_spin self \<noteq> 0 \<longrightarrow>
      (\<exists>rep. run_simulation self num_spins rng = Inr rep \<and>
             rep_total_spins rep = num_spins \<and> rep_total_payout rep = 0 \<and>
             rep_contributions rep = Map.empty))"
  by (simp add: run_simulation_zero_spins run_simulation_empty_strip spin_reels_empty_strip
      run_simulation_negative_spins)

theorem run_simulation_unvalidated_witness:
  "run_simulation (projr (init name_length (base_game_config demo_strips))) 0 zero_draws
     = Inl ZeroDivisionError \<and>
   (0::int) < 1000 \<and>
   [] \<in> set (virtual_reel_strips (projr (init name_length (base_game_config gap_strips)))) \<and>
   run_simulation (projr (init name_length (base_game_config gap_strips))) 1000 zero_draws
     = Inl ValueError \<and>
   (- 1 :: int) < 0 \<and>
   total_bet_per_spin (projr (init name_length (base_game_config demo_strips))) \<noteq> 0 \<and>
   \<not> isl (run_simulation (projr (init name_length (base_game_config demo_strips))) (- 1) zero_draws)"
proof -
  let ?s = "projr (init name_length (base_game_config demo_strips))"
  let ?g = "projr (init name_length (base_game_config gap_strips))"
  have gap: "[] \<in> set (virtual_reel_strips ?g)"
    by (simp add: base_game_strips gap_strips_def)
  have bet: "total_bet_per_spin ?s \<noteq> 0"
    by (simp add: base_game_total_bet)
  from run_simulation_unvalidated [of 0 ?s zero_draws]
  have 1: "run_simulation ?s 0 zero_draws = Inl ZeroDivisionError" by simp
  from run_simulation_unvalidated [of 1000 ?g zero_draws] gap
  have 2: "run_simulation ?g 1000 zero_draws = Inl ValueError" by simp
  from run_simulation_unvalidated [of "- 1" ?s zero_draws] bet
  have 3: "\<not> isl (run_simulation ?s (- 1) zero_draws)" by auto
  from 1 2 3 gap bet show ?thesis by simp
qed

text \<open>
  A spin count of \<open>-1\<close> on the base game configuration: the run does not fail.
\<close>

theorem negative_spin_count_returns_report:
  "simulate name_length (base_game_config demo_strips) (- 1) zero_draws =
     Inr \<lparr>rep_total_spins = - 1, rep_total_bet = - 10,
          rep_total_payout = 0, rtp = 0, variance = 0, std_dev = 0, hit_frequency = 0,
          average_win_amount = 0, rep_max_win = 0, rep_contributions = Map.empty\<rparr>"
proof -
  let ?s = "projr (init name_length (base_game_config demo_strips))"
  have "simulate name_length (base_game_config demo_strips) (- 1) zero_draws =
      run_simulation ?s (- 1) zero_draws"
    unfolding simulate_def by (subst init_base_game_config_projr) simp
  then show ?thesis
    by (simp add: run_simulation_negative_spins base_game_total_bet)
qed

subsection \<open>The lookup structures built by \<open>_parse_paytable\<close>\<close>

lemma set_set_add [simp]: "set (set_add rank x xs) = insert x (set xs)"
  by (auto simp: set_add_def set_insort_key)

lemma digit_loop_value:
  "efold (\<lambda>(k, v) d. if isdigit k then ebind (py_int k) (\<lambda>n. Inr (d(n \<mapsto> v))) else Inr d)
     data d0 = Inr d \<Longrightarrow> d n = Some v \<Longrightarrow>
   d0 n = Some v \<or> (\<exists>k. (k, v) \<in> set data \<and> isdigit k \<and> py_int k = Inr n)"
  (is "efold ?f data d0 = Inr d \<Longrightarrow> _ \<Longrightarrow> _")
proof (induction data arbitrary: d0)
  case Nil
  then show ?case by simp
next
  case (Cons kv data)
  obtain k' v' where kv: "kv = (k', v')" by (cases kv)
  from Cons.prems(1) obtain d1 where 1: "?f kv d0 = Inr d1" and 2: "efold ?f data d1 = Inr d"
    by (auto simp: ebind_eq_Inr_iff)
  from Cons.IH [OF 2 Cons.prems(2)]
  have "d1 n = Some v \<or> (\<exists>k. (k, v) \<in> set data \<and> isdigit k \<and> py_int k = Inr n)" .
  moreover have "d1 n = Some v \<Longrightarrow>
      d0 n = Some v \<or> (isdigit k' \<and> py_int k' = Inr n \<and> v' = v)"
    using 1 by (auto simp: kv ebind_eq_Inr_iff split: if_splits)
  ultimately show ?case by (auto simp: kv)
qed

lemma digit_dict_value:
  "digit_dict data = Inr d \<Longrightarrow> d n = Some v \<Longrightarrow>
   \<exists>k. (k, v) \<in> set data \<and> isdigit k \<and> py_int k = Inr n"
  unfolding digit_dict_def by (drule digit_loop_value) simp_all

lemma store_pay_cases:
  assumes "store_pay symbol (k, v) s = Inr s'"
  shows "(isdigit k \<and> (\<exists>n. py_int k = Inr n \<and>
            s' = s\<lparr>line_pays := (line_pays s)((symbol, n) \<mapsto> v)\<rparr>)) \<or>
         (\<not> isdigit k \<and> s' = s)"
  using assms by (auto simp: store_pay_def ebind_eq_Inr_iff split: if_splits)

lemma store_loop_line_pays:
  "efold (store_pay symbol) data s = Inr s' \<Longrightarrow> line_pays s' (t, n) = Some v \<Longrightarrow>
   line_pays s (t, n) = Some v \<or>
   (t = symbol \<and> (\<exists>k. (k, v) \<in> set data \<and> isdigit k \<and> py_int k = Inr n))"
proof (induction data arbitrary: s)
  case Nil
  then show ?case by simp
next
  case (Cons kv data)
  obtain k' v' where kv: "kv = (k', v')" by (cases kv)
  from Cons.prems(1) obtain s1 where 1: "store_pay symbol (k', v') s = Inr s1"
    and 2: "efold (store_pay symbol) data s1 = Inr s'"
    by (auto simp: kv ebind_eq_Inr_iff)
  from Cons.IH [OF 2 Cons.prems(2)]
  have "line_pays s1 (t, n) = Some v \<or>
      (t = symbol \<and> (\<exists>k. (k, v) \<in> set data \<and> isdigit k \<and> py_int k = Inr n))" .
  moreover have "line_pays s1 (t, n) = Some v \<Longrightarrow>
      line_pays s (t, n) = Some v \<or>
      (t = symbol \<and> isdigit k' \<and> py_int k' = Inr n \<and> v' = v)"
    using store_pay_cases [OF 1] by (auto split: if_splits)
  ultimately show ?case by (auto simp: kv)
qed

lemma store_loop_others:
  "efold (store_pay symbol) data s = Inr s' \<Longrightarrow>
   scatter_pays s' = scatter_pays s \<and> regular_symbols s' = regular_symbols s"
proof (induction data arbitrary: s)
  case Nil
  then show ?case by simp
next
  case (Cons kv data)
  obtain k' v' where kv: "kv = (k', v')" by (cases kv)
  from Cons.prems(1) obtain s1 where 1: "store_pay symbol (k', v') s = Inr s1"
    and 2: "efold (store_pay symbol) data s1 = Inr s'"
    by (auto simp: kv ebind_eq_Inr_iff)
  from store_pay_cases [OF 1]
  have "scatter_pays s1 = scatter_pays s \<and> regular_symbols s1 = regular_symbols s" by auto
  with Cons.IH [OF 2] show ?case by simp
qed

lemma store_loop_dom:
  "efold (store_pay symbol) data s = Inr s' \<Longrightarrow>
   dom (line_pays s') =
   dom (line_pays s) \<union>
   {(symbol, n) |k v n. (k, v) \<in> set data \<and> isdigit k \<and> py_int k = Inr n}"
proof (induction data arbitrary: s)
  case Nil
  then show ?case by simp
next
  case (Cons kv data)
  obtain k' v' where kv: "kv = (k', v')" by (cases kv)
  from Cons.prems(1) obtain s1 where 1: "store_pay symbol (k', v') s = Inr s1"
    and 2: "efold (store_pay symbol) data s1 = Inr s'"
    by (auto simp: kv ebind_eq_Inr_iff)
  have d1: "dom (line_pays s1) =
      dom (line_pays s) \<union> {(symbol, n) |n. isdigit k' \<and> py_int k' = Inr n}"
    using store_pay_cases [OF 1] by (auto split: if_splits)
  show ?case
    unfolding Cons.IH [OF 2] d1 by (auto simp: kv; blast)
qed

lemma parse_item_cases:
  assumes "parse_item rank (symbol, data) s = Inr s'"
  shows "(symbol = wild_symbol s \<and> s' = s) \<or>
     (symbol \<noteq> wild_symbol s \<and> symbol \<in> set (scatter_symbols s) \<and>
        (\<exists>d. digit_dict data = Inr d \<and>
           s' = s\<lparr>scatter_pays := (scatter_pays s)(symbol \<mapsto> d)\<rparr>)) \<or>
     (symbol \<noteq> wild_symbol s \<and> symbol \<notin> set (scatter_symbols s) \<and>
        efold (store_pay symbol) data
          (s\<lparr>regular_symbols := set_add rank symbol (regular_symbols s)\<rparr>) = Inr s')"
  using assms by (auto simp: parse_item_def ebind_eq_Inr_iff split: if_splits)

lemma parse_item_line_pays:
  assumes "parse_item rank (symbol, data) s = Inr s'" and "line_pays s' (t, n) = Some v"
  shows "line_pays s (t, n) = Some v \<or>
   (t = symbol \<and> symbol \<noteq> wild_symbol s \<and> symbol \<notin> set (scatter_symbols s) \<and>
    (\<exists>k. (k, v) \<in> set data \<and> isdigit k \<and> py_int k = Inr n))"
  using parse_item_cases [OF assms(1)] assms(2)
  by (auto dest!: store_loop_line_pays)

lemma parse_item_regular:
  assumes "parse_item rank (symbol, data) s = Inr s'"
  shows "set (regular_symbols s') =
   set (regular_symbols s) \<union>
   {x. x = symbol \<and> symbol \<noteq> wild_symbol s \<and> symbol \<notin> set (scatter_symbols s)}"
  using parse_item_cases [OF assms]
  by (auto dest!: store_loop_others)

lemma parse_item_scatter_pays:
  assumes "parse_item rank (symbol, data) s = Inr s'" and "scatter_pays s' x = Some tbl"
  shows "scatter_pays s x = Some tbl \<or>
     (x = symbol \<and> symbol \<noteq> wild_symbol s \<and> symbol \<in> set (scatter_symbols s) \<and>
      digit_dict data = Inr tbl)"
  using parse_item_cases [OF assms(1)] assms(2)
  by (auto dest!: store_loop_others split: if_splits)

lemma parse_item_scatter_dom:
  assumes "parse_item rank (symbol, data) s = Inr s'"
  shows "dom (scatter_pays s') =
     dom (scatter_pays s) \<union>
     {x. x = symbol \<and> symbol \<noteq> wild_symbol s \<and> symbol \<in> set (scatter_symbols s)}"
  using parse_item_cases [OF assms]
  by (auto dest!: store_loop_others)

lemma parse_item_dom:
  assumes "parse_item rank (symbol, data) s = Inr s'"
  shows "dom (line_pays s') =
   dom (line_pays s) \<union>
   {(symbol, n) |k v n. symbol \<noteq> wild_symbol s \<and> symbol \<notin> set (scatter_symbols s) \<and>
      (k, v) \<in> set data \<and> isdigit k \<and> py_int k = Inr n}"
proof -
  from parse_item_cases [OF assms] consider
    (wild) "symbol = wild_symbol s" "s' = s"
    | (scatter) "symbol \<in> set (scatter_symbols s)" "line_pays s' = line_pays s"
    | (regular) "symbol \<noteq> wild_symbol s" "symbol \<notin> set (scatter_symbols s)"
        "efold (store_pay symbol) data
          (s\<lparr>regular_symbols := set_add rank symbol (regular_symbols s)\<rparr>) = Inr s'"
    by auto
  then show ?thesis
  proof cases
    case wild
    then show ?thesis by simp
  next
    case scatter
    then show ?thesis by simp
  next
    case regular
    from store_loop_dom [OF regular(3)] regular(1,2) show ?thesis by simp
  qed
qed

lemma parse_loop_line_pays:
  "efold (parse_item rank) items s = Inr s' \<Longrightarrow> line_pays s' (t, n) = Some v \<Longrightarrow>
   line_pays s (t, n) = Some v \<or>
   (t \<noteq> wild_symbol s \<and> t \<notin> set (scatter_symbols s) \<and>
    (\<exists>data k. (t, data) \<in> set items \<and> (k, v) \<in> set data \<and> isdigit k \<and> py_int k = Inr n))"
proof (induction items arbitrary: s)
  case Nil
  then show ?case by simp
next
  case (Cons item items)
  obtain symbol data where item: "item = (symbol, data)" by (cases item)
  from Cons.prems(1) obtain s1 where 1: "parse_item rank (symbol, data) s = Inr s1"
    and 2: "efold (parse_item rank) items s1 = Inr s'"
    by (auto simp: item ebind_eq_Inr_iff)
  note w = parse_item_setup(1) [OF 1] and sc = parse_item_setup(2) [OF 1]
  from Cons.IH [OF 2 Cons.prems(2)] show ?case
    unfolding w sc using parse_item_line_pays [OF 1, of t n v]
    by (auto simp: item)
qed

lemma parse_loop_regular:
  "efold (parse_item rank) items s = Inr s' \<Longrightarrow>
   set (regular_symbols s') =
   set (regular_symbols s) \<union>
   {x \<in> fst ` set items. x \<noteq> wild_symbol s \<and> x \<notin> set (scatter_symbols s)}"
proof (induction items arbitrary: s)
  case Nil
  then show ?case by simp
next
  case (Cons item items)
  obtain symbol data where item: "item = (symbol, data)" by (cases item)
  from Cons.prems(1) obtain s1 where 1: "parse_item rank (symbol, data) s = Inr s1"
    and 2: "efold (parse_item rank) items s1 = Inr s'"
    by (auto simp: item ebind_eq_Inr_iff)
  note w = parse_item_setup(1) [OF 1] and sc = parse_item_setup(2) [OF 1]
  show ?case
    unfolding Cons.IH [OF 2] w sc parse_item_regular [OF 1] by (auto simp: item)
qed

lemma parse_loop_scatter_pays:
  "efold (parse_item rank) items s = Inr s' \<Longrightarrow> scatter_pays s' x = Some tbl \<Longrightarrow>
   scatter_pays s x = Some tbl \<or>
   (x \<noteq> wild_symbol s \<and> x \<in> set (scatter_symbols s) \<and>
    (\<exists>data. (x, data) \<in> set items \<and> digit_dict data = Inr tbl))"
proof (induction items arbitrary: s)
  case Nil
  then show ?case by simp
next
  case (Cons item items)
  obtain symbol data where item: "item = (symbol, data)" by (cases item)
  from Cons.prems(1) obtain s1 where 1: "parse_item rank (symbol, data) s = Inr s1"
    and 2: "efold (parse_item rank) items s1 = Inr s'"
    by (auto simp: item ebind_eq_Inr_iff)
  note w = parse_item_setup(1) [OF 1] and sc = parse_item_setup(2) [OF 1]
  from Cons.IH [OF 2 Cons.prems(2)] show ?case
    unfolding w sc using parse_item_scatter_pays [OF 1, of x tbl]
    by (auto simp: item)
qed

lemma parse_loop_dom:
  "efold (parse_item rank) items s = Inr s' \<Longrightarrow>
   dom (line_pays s') =
   dom (line_pays s) \<union>
   {(t, n) |t data k v n. (t, data) \<in> set items \<and> t \<noteq> wild_symbol s \<and>
      t \<notin> set (scatter_symbols s) \<and> (k, v) \<in> set data \<and> isdigit k \<and> py_int k = Inr n}"
proof (induction items arbitrary: s)
  case Nil
  then show ?case by simp
next
  case (Cons item items)
  obtain symbol data where item: "item = (symbol, data)" by (cases item)
  from Cons.prems(1) obtain s1 where 1: "parse_item rank (symbol, data) s = Inr s1"
    and 2: "efold (parse_item rank) items s1 = Inr s'"
    by (auto simp: item ebind_eq_Inr_iff)
  note w = parse_item_setup(1) [OF 1] and sc = parse_item_setup(2) [OF 1]
  show ?case
    unfolding Cons.IH [OF 2] w sc parse_item_dom [OF 1] by (auto simp: item; blast)
qed

lemma parse_loop_scatter_dom:
  "efold (parse_item rank) items s = Inr s' \<Longrightarrow>
   dom (scatter_pays s') =
   dom (scatter_pays s) \<union>
   {x \<in> fst ` set items. x \<noteq> wild_symbol s \<and> x \<in> set (scatter_symbols s)}"
proof (induction items arbitrary: s)
  case Nil
  then show ?case by simp
next
  case (Cons item items)
  obtain symbol data where item: "item = (symbol, data)" by (cases item)
  from Cons.prems(1) obtain s1 where 1: "parse_item rank (symbol, data) s = Inr s1"
    and 2: "efold (parse_item rank) items s1 = Inr s'"
    by (auto simp: item ebind_eq_Inr_iff)
  note w = parse_item_setup(1) [OF 1] and sc = parse_item_setup(2) [OF 1]
  show ?case
    unfolding Cons.IH [OF 2] w sc parse_item_scatter_dom [OF 1] by (auto simp: item)
qed

lemma add_regular_fold:
  "line_pays (fold (add_regular rank) names s) = line_pays s"
  "scatter_pays (fold (add_regular rank) names s) = scatter_pays s"
  "wild_symbol (fold (add_regular rank) names s) = wild_symbol s"
  "scatter_symbols (fold (add_regular rank) names s) = scatter_symbols s"
  "set (regular_symbols (fold (add_regular rank) names s)) =
     set (regular_symbols s) \<union>
     {x \<in> set names. x \<notin> set (scatter_symbols s) \<and> x \<noteq> wild_symbol s}"
  by (induction names arbitrary: s) (auto simp: add_regular_def)

lemma parse_paytable_parts:
  assumes "parse_paytable rank s = Inr p"
  shows "\<exists>s1. efold (parse_item rank) (paytable s)
            (s\<lparr>line_pays := Map.empty, scatter_pays := Map.empty, regular_symbols := []\<rparr>) =
            Inr s1 \<and>
          p = fold (add_regular rank) (map fst (paytable s)) s1"
  using assms unfolding parse_paytable_eq
  by (cases "efold (parse_item rank) (paytable s)
            (s\<lparr>line_pays := Map.empty, scatter_pays := Map.empty, regular_symbols := []\<rparr>)")
    simp_all

lemma parse_paytable_line_pays:
  assumes "parse_paytable rank s = Inr p" and "line_pays p (t, n) = Some v"
  shows "t \<noteq> wild_symbol s \<and> t \<notin> set (scatter_symbols s) \<and>
    (\<exists>data k. (t, data) \<in> set (paytable s) \<and> (k, v) \<in> set data \<and> isdigit k \<and>
       py_int k = Inr n)"
proof -
  from parse_paytable_parts [OF assms(1)] obtain s1 where
    1: "efold (parse_item rank) (paytable s)
          (s\<lparr>line_pays := Map.empty, scatter_pays := Map.empty, regular_symbols := []\<rparr>) = Inr s1"
    and p: "p = fold (add_regular rank) (map fst (paytable s)) s1" by blast
  from assms(2) have "line_pays s1 (t, n) = Some v" by (simp add: p add_regular_fold)
  from parse_loop_line_pays [OF 1 this] show ?thesis by simp
qed

lemma parse_paytable_scatter_pays:
  assumes "parse_paytable rank s = Inr p" and "scatter_pays p x = Some tbl"
  shows "x \<noteq> wild_symbol s \<and> x \<in> set (scatter_symbols s) \<and>
    (\<exists>data. (x, data) \<in> set (paytable s) \<and> digit_dict data = Inr tbl)"
proof -
  from parse_paytable_parts [OF assms(1)] obtain s1 where
    1: "efold (parse_item rank) (paytable s)
          (s\<lparr>line_pays := Map.empty, scatter_pays := Map.empty, regular_symbols := []\<rparr>) = Inr s1"
    and p: "p = fold (add_regular rank) (map fst (paytable s)) s1" by blast
  from assms(2) have "scatter_pays s1 x = Some tbl" by (simp add: p add_regular_fold)
  from parse_loop_scatter_pays [OF 1 this] show ?thesis by simp
qed

lemma parse_paytable_regular:
  assumes "parse_paytable rank s = Inr p"
  shows "set (regular_symbols p) =
   {x \<in> fst ` set (paytable s). x \<noteq> wild_symbol s \<and> x \<notin> set (scatter_symbols s)}"
proof -
  from parse_paytable_parts [OF assms(1)] obtain s1 where
    1: "efold (parse_item rank) (paytable s)
          (s\<lparr>line_pays := Map.empty, scatter_pays := Map.empty, regular_symbols := []\<rparr>) = Inr s1"
    and p: "p = fold (add_regular rank) (map fst (paytable s)) s1" by blast
  from parse_loop_setup(1,2) [OF 1]
  have w: "wild_symbol s1 = wild_symbol s" and sc: "scatter_symbols s1 = scatter_symbols s"
    by simp_all
  show ?thesis
    unfolding p add_regular_fold parse_loop_regular [OF 1] w sc by auto
qed

lemma parse_paytable_dom:
  assumes "parse_paytable rank s = Inr p"
  shows "dom (line_pays p) =
   {(t, n) |t data k v n. (t, data) \<in> set (paytable s) \<and> t \<noteq> wild_symbol s \<and>
      t \<notin> set (scatter_symbols s) \<and> (k, v) \<in> set data \<and> isdigit k \<and> py_int k = Inr n}"
proof -
  from parse_paytable_parts [OF assms(1)] obtain s1 where
    1: "efold (parse_item rank) (paytable s)
          (s\<lparr>line_pays := Map.empty, scatter_pays := Map.empty, regular_symbols := []\<rparr>) = Inr s1"
    and p: "p = fold (add_regular rank) (map fst (paytable s)) s1" by blast
  show ?thesis
    unfolding p add_regular_fold parse_loop_dom [OF 1] by simp
qed

lemma parse_paytable_scatter_dom:
  assumes "parse_paytable rank s = Inr p"
  shows "dom (scatter_pays p) =
   {x \<in> fst ` set (paytable s). x \<noteq> wild_symbol s \<and> x \<in> set (scatter_symbols s)}"
proof -
  from parse_paytable_parts [OF assms(1)] obtain s1 where
    1: "efold (parse_item rank) (paytable s)
          (s\<lparr>line_pays := Map.empty, scatter_pays := Map.empty, regular_symbols := []\<rparr>) = Inr s1"
    and p: "p = fold (add_regular rank) (map fst (paytable s)) s1" by blast
  show ?thesis
    unfolding p add_regular_fold parse_loop_scatter_dom [OF 1] by simp
qed

text \<open>
  C5.  \<open>_parse_paytable\<close> has no check of the symbols or of the payout values, and no
  error of its own.  It fails in one case only: with the \<open>ValueError\<close> of \<open>int\<close>, when
  the entry of a symbol other than the wild symbol has a key that \<open>str.isdigit\<close>
  accepts and \<open>int\<close> rejects.  Otherwise it returns.  The entry of the wild symbol is
  skipped and the entry of a scatter symbol goes to \<open>scatter_pays\<close> only, so no key of
  \<open>line_pays\<close> and no regular symbol is the wild symbol or a scatter symbol.  Every
  digit-keyed payout of every other symbol becomes a key of \<open>line_pays\<close>, whatever its
  value, and each stored payout is a value of the raw paytable as it stands there.
\<close>

theorem parse_paytable_unvalidated:
  "(bad_keys self \<noteq> [] \<longrightarrow> parse_paytable rank self = Inl ValueError) \<and>
   (bad_keys self = [] \<longrightarrow>
      (\<exists>p. parse_paytable rank self = Inr p \<and>
         dom (line_pays p) =
           {(t, n) |t data k v n. (t, data) \<in> set (paytable self) \<and>
              t \<noteq> wild_symbol self \<and> t \<notin> set (scatter_symbols self) \<and>
              (k, v) \<in> set data \<and> isdigit k \<and> py_int k = Inr n} \<and>
         (\<forall>t n v. line_pays p (t, n) = Some v \<longrightarrow>
            (\<exists>data k. (t, data) \<in> set (paytable self) \<and> (k, v) \<in> set data \<and> isdigit k \<and>
               py_int k = Inr n)) \<and>
         set (regular_symbols p) =
           {x \<in> fst ` set (paytable self).
              x \<noteq> wild_symbol self \<and> x \<notin> set (scatter_symbols self)} \<and>
         dom (scatter_pays p) =
           {x \<in> fst ` set (paytable self).
              x \<noteq> wild_symbol self \<and> x \<in> set (scatter_symbols self)}))"
proof (intro conjI impI)
  assume "bad_keys self \<noteq> []"
  then show "parse_paytable rank self = Inl ValueError" by (rule parse_paytable_raises)
next
  assume "bad_keys self = []"
  from parse_paytable_returns [OF this, of rank] obtain p
    where p: "parse_paytable rank self = Inr p" by blast
  have "\<forall>t n v. line_pays p (t, n) = Some v \<longrightarrow>
            (\<exists>data k. (t, data) \<in> set (paytable self) \<and> (k, v) \<in> set data \<and> isdigit k \<and>
               py_int k = Inr n)"
    using parse_paytable_line_pays [OF p] by blast
  with p parse_paytable_dom [OF p] parse_paytable_regular [OF p] parse_paytable_scatter_dom [OF p]
  show "\<exists>p. parse_paytable rank self = Inr p \<and>
         dom (line_pays p) =
           {(t, n) |t data k v n. (t, data) \<in> set (paytable self) \<and>
              t \<noteq> wild_symbol self \<and> t \<notin> set (scatter_symbols self) \<and>
              (k, v) \<in> set data \<and> isdigit k \<and> py_int k = Inr n} \<and>
         (\<forall>t n v. line_pays p (t, n) = Some v \<longrightarrow>
            (\<exists>data k. (t, data) \<in> set (paytable self) \<and> (k, v) \<in> set data \<and> isdigit k \<and>
               py_int k = Inr n)) \<and>
         set (regular_symbols p) =
           {x \<in> fst ` set (paytable self).
              x \<noteq> wild_symbol self \<and> x \<notin> set (scatter_symbols self)} \<and>
         dom (scatter_pays p) =
           {x \<in> fst ` set (paytable self).
              x \<noteq> wild_symbol self \<and> x \<in> set (scatter_symbols self)}"
    by (intro exI [of _ p] conjI)
qed

lemma unchecked_attributes:
  "paytable (attributes unchecked_config 10) =
     [(''Wild'', [(''3'', Num 100)]), (''Bell'', [(''3'', Num (- 5))]),
      (''DollarScatter'', [(''3'', Num 500)])]"
  "wild_symbol (attributes unchecked_config 10) = ''Wild''"
  "scatter_symbols (attributes unchecked_config 10) = [''DollarScatter'', ''StarScatter'']"
  by (simp_all add: attributes_def unchecked_config_def base_game_config_def dict_get_def)

lemma unchecked_keys: "bad_keys (attributes unchecked_config 10) = []"
  by (simp add: bad_keys_def entry_bad_keys_def unchecked_attributes digit_keys_good)

lemma py_int_three: "py_int ''3'' = Inr 3" "isdigit ''3''"
  by (simp_all add: py_int_def isdigit_def digit_chars_def int_of_str_def digit_val_def)

lemma unchecked_parsed:
  "\<not> isl (parse_paytable rank (attributes unchecked_config 10))"
  "line_pays (projr (parse_paytable rank (attributes unchecked_config 10))) (''Bell'', 3) =
     Some (Num (- 5))"
  "regular_symbols (projr (parse_paytable rank (attributes unchecked_config 10))) = [''Bell'']"
  by (simp_all add: parse_paytable_def parse_item_def store_pay_def add_regular_def
      set_add_def digit_dict_def py_int_three unchecked_attributes)

lemma superscript_attributes:
  "paytable (attributes superscript_config 10) = [(''Bell'', [([CHR 0xB2], Num 5)])]"
  "wild_symbol (attributes superscript_config 10) = ''Wild''"
  by (simp_all add: attributes_def superscript_config_def base_game_config_def dict_get_def)

lemma superscript_keys: "bad_keys (attributes superscript_config 10) = [[CHR 0xB2]]"
  by (simp add: bad_keys_def entry_bad_keys_def superscript_attributes bad_key_def isdigit_def
      py_int_def digit_chars_def superscript_chars_def)

theorem parse_paytable_unvalidated_witness:
  "bad_keys (attributes unchecked_config 10) = [] \<and>
   \<not> isl (parse_paytable name_length (attributes unchecked_config 10)) \<and>
   line_pays (projr (parse_paytable name_length (attributes unchecked_config 10))) (''Bell'', 3) =
     Some (Num (- 5)) \<and>
   (\<exists>data k. (''Bell'', data) \<in> set (paytable (attributes unchecked_config 10)) \<and>
      (k, Num (- 5)) \<in> set data \<and> isdigit k \<and> py_int k = Inr 3) \<and>
   (''Wild'', 3) \<notin>
     dom (line_pays (projr (parse_paytable name_length (attributes unchecked_config 10)))) \<and>
   ''Wild'' \<notin>
     set (regular_symbols (projr (parse_paytable name_length (attributes unchecked_config 10)))) \<and>
   bad_keys (attributes superscript_config 10) \<noteq> [] \<and>
   parse_paytable name_length (attributes superscript_config 10) = Inl ValueError"
proof -
  let ?s = "attributes unchecked_config 10"
  let ?p = "projr (parse_paytable name_length ?s)"
  note t = parse_paytable_unvalidated [of ?s name_length]
  from mp [OF conjunct2 [OF t] unchecked_keys] obtain p where a:
    "parse_paytable name_length ?s = Inr p \<and>
     dom (line_pays p) =
           {(t, n) |t data k v n. (t, data) \<in> set (paytable ?s) \<and>
              t \<noteq> wild_symbol ?s \<and> t \<notin> set (scatter_symbols ?s) \<and>
              (k, v) \<in> set data \<and> isdigit k \<and> py_int k = Inr n} \<and>
     (\<forall>t n v. line_pays p (t, n) = Some v \<longrightarrow>
            (\<exists>data k. (t, data) \<in> set (paytable ?s) \<and> (k, v) \<in> set data \<and> isdigit k \<and>
               py_int k = Inr n)) \<and>
     set (regular_symbols p) =
           {x \<in> fst ` set (paytable ?s). x \<noteq> wild_symbol ?s \<and> x \<notin> set (scatter_symbols ?s)} \<and>
     dom (scatter_pays p) =
           {x \<in> fst ` set (paytable ?s). x \<noteq> wild_symbol ?s \<and> x \<in> set (scatter_symbols ?s)}"
    ..
  from a have p: "parse_paytable name_length ?s = Inr p" by (elim conjE)
  from a have d: "dom (line_pays p) =
           {(t, n) |t data k v n. (t, data) \<in> set (paytable ?s) \<and>
              t \<noteq> wild_symbol ?s \<and> t \<notin> set (scatter_symbols ?s) \<and>
              (k, v) \<in> set data \<and> isdigit k \<and> py_int k = Inr n}" by (elim conjE)
  from a have v: "\<forall>t n v. line_pays p (t, n) = Some v \<longrightarrow>
            (\<exists>data k. (t, data) \<in> set (paytable ?s) \<and> (k, v) \<in> set data \<and> isdigit k \<and>
               py_int k = Inr n)" by (elim conjE)
  from a have r: "set (regular_symbols p) =
           {x \<in> fst ` set (paytable ?s). x \<noteq> wild_symbol ?s \<and> x \<notin> set (scatter_symbols ?s)}"
    by (elim conjE)
  from p have pp: "?p = p" by simp
  have 0: "\<not> isl (parse_paytable name_length ?s)" using p by simp
  have 1: "line_pays ?p (''Bell'', 3) = Some (Num (- 5))"
    by (rule unchecked_parsed)
  then have "line_pays p (''Bell'', 3) = Some (Num (- 5))" by (simp add: pp)
  with v have 2: "\<exists>data k. (''Bell'', data) \<in> set (paytable ?s) \<and>
      (k, Num (- 5)) \<in> set data \<and> isdigit k \<and> py_int k = Inr 3"
    by (elim allE [of _ "''Bell''"] allE [of _ "3::nat"] allE [of _ "Num (- 5)"]) (rule mp)
  have 3: "(''Wild'', 3) \<notin> dom (line_pays ?p)"
    unfolding pp d by (simp add: unchecked_attributes(2))
  have 4: "''Wild'' \<notin> set (regular_symbols ?p)"
    unfolding pp r by (simp add: unchecked_attributes(2))
  have 5: "bad_keys (attributes superscript_config 10) \<noteq> []"
    by (simp add: superscript_keys)
  have 6: "parse_paytable name_length (attributes superscript_config 10) = Inl ValueError"
    by (rule mp [OF conjunct1 [OF parse_paytable_unvalidated
          [of "attributes superscript_config 10" name_length]] 5])
  from unchecked_keys 0 1 2 3 4 5 6 show ?thesis by (intro conjI)
qed

text \<open>
  Constructing the simulator from \<open>unchecked_config\<close> succeeds: the entry of the wild
  symbol is dropped and the negative payout is stored.
\<close>

theorem wild_entry_and_negative_payout_accepted:
  "\<not> isl (init name_length unchecked_config) \<and>
   line_pays (projr (init name_length unchecked_config)) (''Bell'', 3) = Some (Num (- 5)) \<and>
   regular_symbols (projr (init name_length unchecked_config)) = [''Bell'']"
proof -
  have "init name_length unchecked_config =
      map_sum id (\<lambda>s. s\<lparr>paylines := define_paylines\<rparr>)
        (parse_paytable name_length (attributes unchecked_config 10))"
    by (simp add: init_eq unchecked_config_def base_game_config_def dict_get_def)
  then show ?thesis
    using unchecked_parsed [of name_length]
    by (cases "parse_paytable name_length (attributes unchecked_config 10)") simp_all
qed

subsection \<open>Subscription inside the range\<close>

lemma py_index_nat: "k < length xs \<Longrightarrow> py_index xs (int k) = Inr k"
  by (simp add: py_index_def)

lemma py_nth_nat: "k < length xs \<Longrightarrow> py_nth xs (int k) = Inr (xs ! k)"
  by (simp add: py_nth_def py_index_nat)

lemma py_set_nat: "k < length xs \<Longrightarrow> py_set xs (int k) v = Inr (xs[k := v])"
  by (simp add: py_set_def py_index_nat)

lemma py_nth_in_range:
  "0 \<le> i \<Longrightarrow> i < int (length xs) \<Longrightarrow> py_nth xs i = Inr (xs ! nat i)"
  using py_nth_nat [of "nat i" xs] by simp

lemma py_index_length: "length xs = length ys \<Longrightarrow> py_index xs i = py_index ys i"
  by (simp add: py_index_def)

lemma py_index_bound: "py_index xs i = Inr k \<Longrightarrow> k < length xs"
  by (auto simp: py_index_def split: if_splits)

subsection \<open>Wild expansion on screens\<close>

lemma replicate_update_step:
  assumes "m < length col"
  shows "(replicate m w @ drop m col)[m := w] = replicate (Suc m) w @ drop (Suc m) col"
proof -
  from assms have "drop m col = col ! m # drop (Suc m) col"
    by (simp add: Cons_nth_drop_Suc)
  then show ?thesis
    by (simp add: list_update_append replicate_append_same)
qed

lemma set_rows:
  assumes "k < length cur" and "m \<le> length (cur ! k)"
  shows "efold (\<lambda>row_idx c. set_cell c (int k) (int row_idx) w) [0..<m] cur =
     Inr (cur[k := replicate m w @ drop m (cur ! k)])"
  using assms(2)
proof (induction m)
  case 0
  show ?case by simp
next
  case (Suc m)
  let ?col = "replicate m w @ drop m (cur ! k)"
  let ?cur = "cur[k := ?col]"
  from Suc have IH: "efold (\<lambda>row_idx c. set_cell c (int k) (int row_idx) w) [0..<m] cur = Inr ?cur"
    by simp
  from Suc.prems have m: "m < length (cur ! k)" by simp
  then have len: "m < length ?col" by simp
  have "set_cell ?cur (int k) (int m) w = Inr (?cur[k := ?col[m := w]])"
    using assms(1) len by (simp add: set_cell_def py_nth_nat py_set_nat)
  also have "?col[m := w] = replicate (Suc m) w @ drop (Suc m) (cur ! k)"
    using m by (rule replicate_update_step)
  finally have "set_cell ?cur (int k) (int m) w =
      Inr (cur[k := replicate (Suc m) w @ drop (Suc m) (cur ! k)])"
    by simp
  with IH show ?case
    by (simp add: efold_append)
qed

lemma expand_reel_column:
  assumes "k < length cur" and "length (cur ! k) = num_rows self"
  shows "expand_reel self (int k) cur =
     Inr (if wild_symbol self \<in> set (cur ! k)
          then cur[k := replicate (num_rows self) (wild_symbol self)] else cur)"
proof -
  have "list_ex (\<lambda>sym. sym = wild_symbol self) (cur ! k) \<longleftrightarrow> wild_symbol self \<in> set (cur ! k)"
    by (auto simp: list_ex_iff)
  moreover have "efold (\<lambda>row_idx c. set_cell c (int k) (int row_idx) (wild_symbol self))
      [0..<num_rows self] cur = Inr (cur[k := replicate (num_rows self) (wild_symbol self)])"
    using set_rows [of k cur "num_rows self" "wild_symbol self"] assms by simp
  ultimately show ?thesis
    using assms(1) by (simp add: expand_reel_def py_nth_nat)
qed

lemma length_expanded [simp]: "length (expanded self seen scr) = length scr"
  by (simp add: expanded_def)

lemma nth_expanded:
  "i < length scr \<Longrightarrow>
   expanded self seen scr ! i =
     (if int i \<in> set seen \<and> wild_symbol self \<in> set (scr ! i)
      then replicate (num_rows self) (wild_symbol self) else scr ! i)"
  by (simp add: expanded_def nth_enumerate_eq)

lemma expanded_Nil [simp]: "expanded self [] scr = scr"
  by (rule nth_equalityI) (simp_all add: nth_expanded)

lemma expand_reel_expanded:
  assumes rows: "\<forall>col \<in> set scr. length col = num_rows self"
    and r: "0 \<le> r" "r < int (length scr)"
  shows "expand_reel self r (expanded self seen scr) = Inr (expanded self (seen @ [r]) scr)"
proof -
  let ?k = "nat r" and ?w = "wild_symbol self" and ?n = "num_rows self"
  let ?cur = "expanded self seen scr"
  from r have k: "?k < length scr" and rk: "r = int ?k" by simp_all
  from k rows have len: "length (scr ! ?k) = ?n" by simp
  have col: "?cur ! ?k =
      (if r \<in> set seen \<and> ?w \<in> set (scr ! ?k) then replicate ?n ?w else scr ! ?k)"
    using k rk by (simp add: nth_expanded)
  then have len': "length (?cur ! ?k) = ?n" using len by simp
  have wild: "?w \<in> set (?cur ! ?k) \<longleftrightarrow> ?w \<in> set (scr ! ?k)"
    using col len by (cases "?n = 0") auto
  have "expand_reel self (int ?k) ?cur =
      Inr (if ?w \<in> set (?cur ! ?k) then ?cur[?k := replicate ?n ?w] else ?cur)"
    using k len' by (intro expand_reel_column) simp_all
  moreover have "(if ?w \<in> set (?cur ! ?k) then ?cur[?k := replicate ?n ?w] else ?cur) =
      expanded self (seen @ [r]) scr"
  proof (rule nth_equalityI)
    show "length (if ?w \<in> set (?cur ! ?k) then ?cur[?k := replicate ?n ?w] else ?cur) =
        length (expanded self (seen @ [r]) scr)" by simp
  next
    fix i
    assume "i < length (if ?w \<in> set (?cur ! ?k) then ?cur[?k := replicate ?n ?w] else ?cur)"
    then have i: "i < length scr" by (simp split: if_splits)
    show "(if ?w \<in> set (?cur ! ?k) then ?cur[?k := replicate ?n ?w] else ?cur) ! i =
        expanded self (seen @ [r]) scr ! i"
    proof (cases "i = ?k")
      case True
      then show ?thesis using k rk wild col by (auto simp: nth_expanded)
    next
      case False
      then have "int i \<noteq> r" using r by auto
      then show ?thesis using i False by (auto simp: nth_expanded)
    qed
  qed
  ultimately show ?thesis using rk by simp
qed

lemma efold_expand_reel:
  assumes rows: "\<forall>col \<in> set scr. length col = num_rows self"
    and rs: "\<forall>r \<in> set rs. 0 \<le> r \<and> r < int (length scr)"
  shows "efold (expand_reel self) rs (expanded self seen scr) =
     Inr (expanded self (seen @ rs) scr)"
  using rs
proof (induction rs arbitrary: seen)
  case Nil
  show ?case by simp
next
  case (Cons r rs)
  then have "expand_reel self r (expanded self seen scr) =
      Inr (expanded self (seen @ [r]) scr)"
    using rows by (intro expand_reel_expanded) simp_all
  moreover have "efold (expand_reel self) rs (expanded self (seen @ [r]) scr) =
      Inr (expanded self ((seen @ [r]) @ rs) scr)"
    using Cons.prems by (intro Cons.IH) simp
  ultimately show ?case by simp
qed

lemma apply_expanding_wilds_expanded:
  assumes "\<forall>col \<in> set scr. length col = num_rows self"
    and "\<forall>r \<in> set (wild_reels self). 0 \<le> r \<and> r < int (length scr)"
  shows "apply_expanding_wilds self scr = Inr (expanded self (wild_reels self) scr)"
  using efold_expand_reel [OF assms, of "[]"] by (simp add: apply_expanding_wilds_def)

subsection \<open>Wild expansion on list objects\<close>

lemma map_update_distinct:
  assumes "distinct refs" and "k < length refs"
  shows "map (f(refs ! k := y)) refs = (map f refs)[k := y]"
proof (rule nth_equalityI)
  show "length (map (f(refs ! k := y)) refs) = length ((map f refs)[k := y])" by simp
next
  fix i
  assume "i < length (map (f(refs ! k := y)) refs)"
  then have i: "i < length refs" by simp
  with assms have "refs ! i = refs ! k \<longleftrightarrow> i = k" by (simp add: nth_eq_iff_index_eq)
  with i show "map (f(refs ! k := y)) refs ! i = (map f refs)[k := y] ! i"
    by (cases "i = k") simp_all
qed

lemma py_nth_contents:
  "py_nth (contents h cur) r = ebind (py_nth cur r) (\<lambda>a. Inr (cells h a))"
proof -
  have "py_index (contents h cur) r = py_index cur r"
    by (rule py_index_length) (simp add: contents_def)
  then show ?thesis
    by (cases "py_index cur r") (auto simp: py_nth_def contents_def dest: py_index_bound)
qed

lemma set_cell_obj_refines:
  assumes "distinct cur"
  shows "map_sum id (\<lambda>h'. contents h' cur) (set_cell_obj cur r row_idx v h) =
     set_cell (contents h cur) r row_idx v"
proof (cases "py_index cur r")
  case (Inl e)
  moreover have "py_index (contents h cur) r = py_index cur r"
    by (rule py_index_length) (simp add: contents_def)
  ultimately show ?thesis
    by (simp add: set_cell_obj_def set_cell_def py_nth_def)
next
  case (Inr k)
  then have k: "k < length cur" by (rule py_index_bound)
  have idx: "py_index (contents h cur) r = Inr k"
    using Inr py_index_length [of "contents h cur" cur r] by (simp add: contents_def)
  show ?thesis
  proof (cases "py_set (cells h (cur ! k)) row_idx v")
    case (Inl e)
    then show ?thesis
      using Inr idx k by (simp add: set_cell_obj_def set_cell_def py_nth_def contents_def)
  next
    case (Inr col')
    have "contents (h\<lparr>cells := (cells h)(cur ! k := col')\<rparr>) cur = (contents h cur)[k := col']"
      using assms k by (simp add: contents_def map_update_distinct)
    then show ?thesis
      using Inr \<open>py_index cur r = Inr k\<close> idx k
      by (simp add: set_cell_obj_def set_cell_def py_nth_def py_set_def contents_def)
  qed
qed

lemma py_nth_member: "py_nth xs i = Inr x \<Longrightarrow> x \<in> set xs"
  by (auto simp: py_nth_def ebind_eq_Inr_iff dest: py_index_bound)

lemma set_cell_obj_frame:
  assumes "set_cell_obj cur r row_idx v h = Inr h'"
  shows "next_free h' = next_free h \<and> (\<forall>a. a \<notin> set cur \<longrightarrow> cells h' a = cells h a)"
proof -
  from assms obtain a col' where a: "py_nth cur r = Inr a"
    and h': "h' = h\<lparr>cells := (cells h)(a := col')\<rparr>"
    by (auto simp: set_cell_obj_def ebind_eq_Inr_iff)
  from a have "a \<in> set cur" by (rule py_nth_member)
  with h' show ?thesis by auto
qed

lemma expand_reel_obj_refines:
  assumes "distinct cur"
  shows "map_sum id (\<lambda>h'. contents h' cur) (expand_reel_obj self cur r h) =
     expand_reel self r (contents h cur)"
proof (cases "py_nth cur r")
  case (Inl e)
  then show ?thesis
    by (simp add: expand_reel_obj_def expand_reel_def py_nth_contents)
next
  case (Inr a)
  have rows: "map_sum id (\<lambda>h'. contents h' cur)
      (efold (\<lambda>row_idx h'. set_cell_obj cur r (int row_idx) (wild_symbol self) h')
         [0..<num_rows self] h) =
      efold (\<lambda>row_idx c. set_cell c r (int row_idx) (wild_symbol self))
         [0..<num_rows self] (contents h cur)"
    by (rule efold_refines) (rule set_cell_obj_refines [OF assms])
  show ?thesis
    using Inr rows by (simp add: expand_reel_obj_def expand_reel_def py_nth_contents)
qed

lemma expand_reel_obj_frame:
  assumes "expand_reel_obj self cur r h = Inr h'"
  shows "next_free h' = next_free h \<and> (\<forall>a. a \<notin> set cur \<longrightarrow> cells h' a = cells h a)"
proof -
  from assms obtain a where a: "py_nth cur r = Inr a"
    by (auto simp: expand_reel_obj_def ebind_eq_Inr_iff)
  show ?thesis
  proof (cases "list_ex (\<lambda>sym. sym = wild_symbol self) (cells h a)")
    case False
    with assms a show ?thesis by (simp add: expand_reel_obj_def)
  next
    case True
    with assms a have "efold (\<lambda>row_idx h'. set_cell_obj cur r (int row_idx) (wild_symbol self) h')
         [0..<num_rows self] h = Inr h'"
      by (simp add: expand_reel_obj_def)
    then show ?thesis
    proof (rule efold_preserves [rotated 2])
      fix x s s'
      assume "set_cell_obj cur r (int x) (wild_symbol self) s = Inr s'"
        and "next_free s = next_free h \<and> (\<forall>a. a \<notin> set cur \<longrightarrow> cells s a = cells h a)"
      then show "next_free s' = next_free h \<and> (\<forall>a. a \<notin> set cur \<longrightarrow> cells s' a = cells h a)"
        using set_cell_obj_frame by metis
    next
      show "next_free h = next_free h \<and> (\<forall>a. a \<notin> set cur \<longrightarrow> cells h a = cells h a)" by simp
    qed
  qed
qed

lemma copy_columns_fresh:
  assumes "copy_columns refs h = (cur, h1)" and "\<forall>a \<in> set refs. a < next_free h"
  shows "length cur = length refs \<and> distinct cur \<and>
     (\<forall>b \<in> set cur. next_free h \<le> b) \<and>
     (\<forall>b < next_free h. cells h1 b = cells h b) \<and>
     contents h1 cur = contents h refs"
  using assms
proof (induction refs arbitrary: h cur h1)
  case Nil
  then show ?case by (simp add: contents_def)
next
  case (Cons a refs)
  let ?h' = "h\<lparr>cells := (cells h)(next_free h := cells h a), next_free := next_free h + 1\<rparr>"
  obtain rest' h'' where rest: "copy_columns refs ?h' = (rest', h'')"
    by (cases "copy_columns refs ?h'")
  with Cons.prems(1) have cur: "cur = next_free h # rest'" and h1: "h1 = h''"
    by (simp_all add: new_list_def)
  from Cons.prems(2) have "\<forall>a \<in> set refs. a < next_free ?h'" by auto
  from Cons.IH [OF rest this]
  have len: "length rest' = length refs" and dist: "distinct rest'"
    and fresh: "\<forall>b \<in> set rest'. next_free ?h' \<le> b"
    and keep: "\<forall>b < next_free ?h'. cells h'' b = cells ?h' b"
    and same: "contents h'' rest' = contents ?h' refs"
    by blast+
  from fresh have fresh': "\<forall>b \<in> set rest'. Suc (next_free h) \<le> b" by simp
  from keep have keep': "\<forall>b < Suc (next_free h). cells h'' b = cells ?h' b" by simp
  from Cons.prems(2) have old: "contents ?h' refs = contents h refs"
    by (auto simp: contents_def)
  from keep' have here: "cells h'' (next_free h) = cells h a" by simp
  from keep' have below: "\<forall>b < next_free h. cells h'' b = cells h b" by simp
  from fresh' have notin: "next_free h \<notin> set rest'" by auto
  from fresh' have ge: "\<forall>b \<in> set rest'. next_free h \<le> b" by auto
  have "contents h'' (next_free h # rest') = contents h (a # refs)"
    using same old here by (simp add: contents_def)
  with len dist notin ge below show ?case
    unfolding cur h1 by simp
qed

text \<open>
  C3.  On a screen of allocated columns of three cells each, with every index of the
  wild-expansion set inside the screen, \<open>_apply_expanding_wilds\<close> returns a screen of
  as many columns in which column \<open>i\<close> is three wild symbols exactly when \<open>i\<close> is in
  the wild-expansion set and the input column holds a wild symbol, and is equal to the
  input column otherwise.  Every list object that existed before the call, so every
  column of the caller's screen, has the contents it had.  The returned screen is the
  one the model on plain screens computes.
\<close>

theorem apply_expanding_wilds_columns:
  assumes "\<forall>a \<in> set visible. a < next_free h"
    and "num_rows self = 3"
    and "\<forall>a \<in> set visible. length (cells h a) = 3"
    and "\<forall>r \<in> set (wild_reels self). 0 \<le> r \<and> r < int (length visible)"
  shows "\<exists>cur h'. apply_expanding_wilds_obj self visible h = Inr (cur, h') \<and>
      length cur = length visible \<and>
      (\<forall>i < length visible. cells h' (cur ! i) =
         (if int i \<in> set (wild_reels self) \<and> wild_symbol self \<in> set (cells h (visible ! i))
          then [wild_symbol self, wild_symbol self, wild_symbol self]
          else cells h (visible ! i))) \<and>
      (\<forall>a < next_free h. cells h' a = cells h a) \<and>
      apply_expanding_wilds self (contents h visible) = Inr (contents h' cur)"
proof -
  let ?scr = "contents h visible"
  let ?E = "expanded self (wild_reels self) ?scr"
  obtain cur h1 where copy: "copy_columns visible h = (cur, h1)"
    by (cases "copy_columns visible h")
  from copy_columns_fresh [OF copy assms(1)]
  have len: "length cur = length visible" and dist: "distinct cur"
    and fresh: "\<forall>b \<in> set cur. next_free h \<le> b"
    and keep: "\<forall>b < next_free h. cells h1 b = cells h b"
    and same: "contents h1 cur = ?scr"
    by blast+
  have rows: "\<forall>col \<in> set ?scr. length col = num_rows self"
    using assms(2,3) by (auto simp: contents_def)
  have reels: "\<forall>r \<in> set (wild_reels self). 0 \<le> r \<and> r < int (length ?scr)"
    using assms(4) by (simp add: contents_def)
  have pure: "apply_expanding_wilds self ?scr = Inr ?E"
    using rows reels by (rule apply_expanding_wilds_expanded)
  have "map_sum id (\<lambda>h'. contents h' cur)
      (efold (expand_reel_obj self cur) (wild_reels self) h1) =
      efold (expand_reel self) (wild_reels self) (contents h1 cur)"
    by (rule efold_refines) (rule expand_reel_obj_refines [OF dist])
  also have "\<dots> = Inr ?E"
    using pure by (simp add: same apply_expanding_wilds_def)
  finally obtain h2 where run: "efold (expand_reel_obj self cur) (wild_reels self) h1 = Inr h2"
    and h2: "contents h2 cur = ?E"
    by (cases "efold (expand_reel_obj self cur) (wild_reels self) h1") auto
  have outside: "\<forall>a. a \<notin> set cur \<longrightarrow> cells h2 a = cells h1 a"
    using run
  proof (rule efold_preserves [rotated 2])
    fix r s s'
    assume "expand_reel_obj self cur r s = Inr s'"
      and "\<forall>a. a \<notin> set cur \<longrightarrow> cells s a = cells h1 a"
    then show "\<forall>a. a \<notin> set cur \<longrightarrow> cells s' a = cells h1 a"
      using expand_reel_obj_frame by metis
  next
    show "\<forall>a. a \<notin> set cur \<longrightarrow> cells h1 a = cells h1 a" by simp
  qed
  have old: "\<forall>a < next_free h. cells h2 a = cells h a"
  proof (intro allI impI)
    fix a
    assume a: "a < next_free h"
    with fresh have "a \<notin> set cur" by auto
    with outside keep a show "cells h2 a = cells h a" by simp
  qed
  have cols: "\<forall>i < length visible. cells h2 (cur ! i) =
      (if int i \<in> set (wild_reels self) \<and> wild_symbol self \<in> set (cells h (visible ! i))
       then [wild_symbol self, wild_symbol self, wild_symbol self]
       else cells h (visible ! i))"
  proof (intro allI impI)
    fix i
    assume i: "i < length visible"
    then have "cells h2 (cur ! i) = contents h2 cur ! i"
      using len by (simp add: contents_def)
    also have "\<dots> = ?E ! i" by (simp add: h2)
    also have "\<dots> =
        (if int i \<in> set (wild_reels self) \<and> wild_symbol self \<in> set (cells h (visible ! i))
         then [wild_symbol self, wild_symbol self, wild_symbol self]
         else cells h (visible ! i))"
      using i by (simp add: nth_expanded contents_def assms(2) numeral_3_eq_3)
    finally show "cells h2 (cur ! i) =
        (if int i \<in> set (wild_reels self) \<and> wild_symbol self \<in> set (cells h (visible ! i))
         then [wild_symbol self, wild_symbol self, wild_symbol self]
         else cells h (visible ! i))" .
  qed
  have "apply_expanding_wilds_obj self visible h = Inr (cur, h2)"
    by (simp add: apply_expanding_wilds_obj_def copy run)
  with len cols old pure h2 show ?thesis by auto
qed

lemma base_game_wilds:
  "wild_reels (projr (init rank (base_game_config strips))) = [1, 2, 3]"
  "wild_symbol (projr (init rank (base_game_config strips))) = ''Wild''"
  "num_rows (projr (init rank (base_game_config strips))) = 3"
  using init_fields(12,10,3) [OF init_base_game_config_projr, of rank strips]
  by (simp_all add: base_game_config_def dict_get_def)

theorem apply_expanding_wilds_columns_witness:
  "list_all (\<lambda>a. a < next_free demo_store \<and> length (cells demo_store a) = 3)
     [0, 1, 2, 3, 4] \<and>
   num_rows (projr (init name_length (base_game_config demo_strips))) = 3 \<and>
   wild_reels (projr (init name_length (base_game_config demo_strips))) = [1, 2, 3] \<and>
   (\<exists>cur h'. apply_expanding_wilds_obj (projr (init name_length (base_game_config demo_strips)))
        [0, 1, 2, 3, 4] demo_store = Inr (cur, h') \<and>
      cells h' (cur ! 1) = [''Wild'', ''Wild'', ''Wild''] \<and>
      cells h' (cur ! 4) = [''Seven'', ''Wild'', ''Bell''] \<and>
      cells h' 1 = [''Wild'', ''Bell'', ''Seven''])"
proof -
  let ?s = "projr (init name_length (base_game_config demo_strips))"
  let ?v = "[0 :: nat, 1, 2, 3, 4]"
  have 1: "\<forall>a \<in> set ?v. a < next_free demo_store" by (simp add: demo_store_def)
  have 2: "num_rows ?s = 3" by (rule base_game_wilds)
  have 3: "\<forall>a \<in> set ?v. length (cells demo_store a) = 3" by (simp add: demo_store_def)
  have 4: "\<forall>r \<in> set (wild_reels ?s). 0 \<le> r \<and> r < int (length ?v)"
    by (simp add: base_game_wilds)
  from apply_expanding_wilds_columns [OF 1 2 3 4]
  obtain cur h' where run: "apply_expanding_wilds_obj ?s ?v demo_store = Inr (cur, h')"
    and cols: "\<forall>i < length ?v. cells h' (cur ! i) =
         (if int i \<in> set (wild_reels ?s) \<and> wild_symbol ?s \<in> set (cells demo_store (?v ! i))
          then [wild_symbol ?s, wild_symbol ?s, wild_symbol ?s]
          else cells demo_store (?v ! i))"
    and old: "\<forall>a < next_free demo_store. cells h' a = cells demo_store a"
    by blast
  from cols have "cells h' (cur ! 1) =
         (if int 1 \<in> set (wild_reels ?s) \<and> wild_symbol ?s \<in> set (cells demo_store (?v ! 1))
          then [wild_symbol ?s, wild_symbol ?s, wild_symbol ?s]
          else cells demo_store (?v ! 1))" by simp
  then have a: "cells h' (cur ! 1) = [''Wild'', ''Wild'', ''Wild'']"
    by (simp add: base_game_wilds demo_store_def)
  from cols have "cells h' (cur ! 4) =
         (if int 4 \<in> set (wild_reels ?s) \<and> wild_symbol ?s \<in> set (cells demo_store (?v ! 4))
          then [wild_symbol ?s, wild_symbol ?s, wild_symbol ?s]
          else cells demo_store (?v ! 4))" by simp
  then have b: "cells h' (cur ! 4) = [''Seven'', ''Wild'', ''Bell'']"
    by (simp add: base_game_wilds demo_store_def)
  from old have c: "cells h' 1 = [''Wild'', ''Bell'', ''Seven'']"
    by (simp add: demo_store_def)
  have 0: "list_all (\<lambda>a. a < next_free demo_store \<and> length (cells demo_store a) = 3) ?v"
    by (simp add: demo_store_def)
  have 5: "wild_reels ?s = [1, 2, 3]" by (rule base_game_wilds)
  from run a b c have "\<exists>cur h'. apply_expanding_wilds_obj ?s ?v demo_store = Inr (cur, h') \<and>
      cells h' (cur ! 1) = [''Wild'', ''Wild'', ''Wild''] \<and>
      cells h' (cur ! 4) = [''Seven'', ''Wild'', ''Bell''] \<and>
      cells h' 1 = [''Wild'', ''Bell'', ''Seven'']" by blast
  with 0 2 5 show ?thesis by (intro conjI)
qed

subsection \<open>The payline evaluator\<close>

lemma count_consecutive_run:
  assumes "target \<notin> set (scatter_symbols self)"
  shows "k \<le> length line \<Longrightarrow>
     count_consecutive self line target [k..<length line] c =
       Inr (c + spec_run_length (wild_symbol self) target (drop k line))"
proof (induction "length line - k" arbitrary: k c)
  case 0
  then show ?case by (simp add: spec_run_length_def)
next
  case (Suc d)
  then have k: "k < length line" by simp
  then have idx: "[k..<length line] = k # [Suc k..<length line]"
    by (simp add: upt_conv_Cons)
  from k have dr: "drop k line = line ! k # drop (Suc k) line"
    by (simp add: Cons_nth_drop_Suc)
  from Suc.hyps(2) have d: "d = length line - Suc k" by simp
  from k have k': "Suc k \<le> length line" by simp
  show ?case
    using Suc.hyps(1) [OF d k', of "c + 1"] assms k
    by (simp add: idx dr py_nth_nat spec_run_length_def)
qed

lemma count_consecutive_line:
  assumes "target \<notin> set (scatter_symbols self)" and "length line = num_reels self"
  shows "count_consecutive self line target [0..<num_reels self] 0 =
     Inr (spec_run_length (wild_symbol self) target line)"
  using count_consecutive_run [OF assms(1), of 0 line 0] assms(2) by simp

lemma scan_counts_find:
  assumes "\<forall>k v. line_pays self k = Some v \<longrightarrow> (\<exists>r. v = Num r)"
  shows "scan_counts self S ns best =
     Inr (keep_best
       (case find (\<lambda>n. line_pays self (S, n) \<noteq> None) ns of
          None \<Rightarrow> None
        | Some n \<Rightarrow> (case line_pays self (S, n) of Some (Num r) \<Rightarrow> Some (n, r) | _ \<Rightarrow> None))
       S best)"
proof (induction ns)
  case Nil
  show ?case by (simp add: keep_best_def)
next
  case (Cons n ns)
  show ?case
  proof (cases "line_pays self (S, n)")
    case None
    with Cons show ?thesis by simp
  next
    case (Some v)
    with assms obtain r where "v = Num r" by blast
    with Some show ?thesis by (simp add: num_def keep_best_def)
  qed
qed

lemma check_symbol_keep_best:
  assumes "\<forall>k v. line_pays self k = Some v \<longrightarrow> (\<exists>r. v = Num r)"
    and "S \<notin> set (scatter_symbols self)" and "length line = num_reels self"
  shows "check_symbol self line S best = Inr (keep_best (spec_candidate self line S) S best)"
  by (simp add: check_symbol_def count_consecutive_line [OF assms(2,3)]
      scan_counts_find [OF assms(1)] spec_candidate_def count_range_def min_match_def
      spec_min_count_def)

lemma check_line_win_fold:
  assumes "\<forall>k v. line_pays self k = Some v \<longrightarrow> (\<exists>r. v = Num r)"
    and "length line = num_reels self"
  shows "set regs \<inter> set (scatter_symbols self) = {} \<Longrightarrow>
     efold (check_symbol self line) regs best =
       Inr (fold (\<lambda>S. keep_best (spec_candidate self line S) S) regs best)"
proof (induction regs arbitrary: best)
  case Nil
  show ?case by simp
next
  case (Cons S regs)
  then have "S \<notin> set (scatter_symbols self)"
    and "set regs \<inter> set (scatter_symbols self) = {}" by auto
  then show ?case
    using Cons.IH by (simp add: check_symbol_keep_best [OF assms(1) _ assms(2)])
qed

lemma first_best_extend:
  fixes cand :: "string \<Rightarrow> (nat \<times> rat) option"
  assumes "\<exists>i < length regs. \<exists>n. cand (regs ! i) = Some (n, b) \<and>
           k = Some (combo_key (regs ! i) n) \<and>
           (\<forall>j < i. \<forall>n' r'. cand (regs ! j) = Some (n', r') \<longrightarrow> r' < b)"
  shows "\<exists>i < length (regs @ [S]). \<exists>n. cand ((regs @ [S]) ! i) = Some (n, b) \<and>
           k = Some (combo_key ((regs @ [S]) ! i) n) \<and>
           (\<forall>j < i. \<forall>n' r'. cand ((regs @ [S]) ! j) = Some (n', r') \<longrightarrow> r' < b)"
proof -
  from assms obtain i n where i: "i < length regs"
    and c: "cand (regs ! i) = Some (n, b)" and k: "k = Some (combo_key (regs ! i) n)"
    and f: "\<forall>j < i. \<forall>n' r'. cand (regs ! j) = Some (n', r') \<longrightarrow> r' < b"
    by blast
  from i have eq: "\<And>j. j \<le> i \<Longrightarrow> (regs @ [S]) ! j = regs ! j"
    by (simp add: nth_append)
  have "i < length (regs @ [S])" using i by simp
  moreover have "cand ((regs @ [S]) ! i) = Some (n, b)" using c eq by simp
  moreover have "k = Some (combo_key ((regs @ [S]) ! i) n)" using k eq by simp
  moreover have "\<forall>j < i. \<forall>n' r'. cand ((regs @ [S]) ! j) = Some (n', r') \<longrightarrow> r' < b"
    using f eq by simp
  ultimately show ?thesis by blast
qed

lemma fold_keep_best:
  fixes cand :: "string \<Rightarrow> (nat \<times> rat) option"
  defines "res regs \<equiv> fold (\<lambda>S. keep_best (cand S) S) regs (0, None)"
  shows "0 \<le> fst (res regs) \<and>
     (snd (res regs) = None \<longleftrightarrow> fst (res regs) = 0) \<and>
     (\<forall>S \<in> set regs. \<forall>n r. cand S = Some (n, r) \<longrightarrow> r \<le> fst (res regs)) \<and>
     (0 < fst (res regs) \<longrightarrow>
        (\<exists>i < length regs. \<exists>n. cand (regs ! i) = Some (n, fst (res regs)) \<and>
           snd (res regs) = Some (combo_key (regs ! i) n) \<and>
           (\<forall>j < i. \<forall>n' r'. cand (regs ! j) = Some (n', r') \<longrightarrow> r' < fst (res regs))))"
proof (induction regs rule: rev_induct)
  case Nil
  show ?case by (simp add: res_def)
next
  case (snoc S regs)
  let ?b = "fst (res regs)"
  have step: "res (regs @ [S]) = keep_best (cand S) S (res regs)"
    by (simp add: res_def)
  from snoc have nonneg: "0 \<le> ?b" and none: "snd (res regs) = None \<longleftrightarrow> ?b = 0"
    and bound: "\<forall>T \<in> set regs. \<forall>n r. cand T = Some (n, r) \<longrightarrow> r \<le> ?b"
    and first: "0 < ?b \<longrightarrow>
        (\<exists>i < length regs. \<exists>n. cand (regs ! i) = Some (n, ?b) \<and>
           snd (res regs) = Some (combo_key (regs ! i) n) \<and>
           (\<forall>j < i. \<forall>n' r'. cand (regs ! j) = Some (n', r') \<longrightarrow> r' < ?b))"
    by blast+
  have first': "0 < ?b \<longrightarrow>
        (\<exists>i < length (regs @ [S]). \<exists>n. cand ((regs @ [S]) ! i) = Some (n, ?b) \<and>
           snd (res regs) = Some (combo_key ((regs @ [S]) ! i) n) \<and>
           (\<forall>j < i. \<forall>n' r'. cand ((regs @ [S]) ! j) = Some (n', r') \<longrightarrow> r' < ?b))"
    using first first_best_extend [of regs cand ?b "snd (res regs)" S] by blast
  show ?case
  proof (cases "cand S")
    case None
    then have same: "res (regs @ [S]) = res regs" by (simp add: step keep_best_def)
    from bound None
    have "\<forall>T \<in> set (regs @ [S]). \<forall>n r. cand T = Some (n, r) \<longrightarrow> r \<le> ?b" by auto
    with nonneg none first' show ?thesis unfolding same by blast
  next
    case (Some nr)
    obtain n r where nr: "nr = (n, r)" by (cases nr)
    show ?thesis
    proof (cases "r > ?b")
      case True
      then have new: "res (regs @ [S]) = (r, Some (combo_key S n))"
        using Some nr by (simp add: step keep_best_def)
      from bound True have less: "\<forall>T \<in> set regs. \<forall>n' r'. cand T = Some (n', r') \<longrightarrow> r' < r"
        by fastforce
      then have "\<forall>j < length regs. \<forall>n' r'. cand ((regs @ [S]) ! j) = Some (n', r') \<longrightarrow> r' < r"
        using nth_mem [of _ regs] by (fastforce simp: nth_append)
      then have first'': "\<exists>i < length (regs @ [S]). \<exists>m. cand ((regs @ [S]) ! i) = Some (m, r) \<and>
           Some (combo_key S n) = Some (combo_key ((regs @ [S]) ! i) m) \<and>
           (\<forall>j < i. \<forall>n' r'. cand ((regs @ [S]) ! j) = Some (n', r') \<longrightarrow> r' < r)"
        using Some nr by (intro exI [of _ "length regs"] exI [of _ n]) simp
      from nonneg True have pos: "0 < r" by simp
      from less Some nr
      have le: "\<forall>T \<in> set (regs @ [S]). \<forall>n' r'. cand T = Some (n', r') \<longrightarrow> r' \<le> r"
        by fastforce
      from pos le first'' show ?thesis unfolding new by simp
    next
      case False
      then have same: "res (regs @ [S]) = res regs"
        using Some nr by (simp add: step keep_best_def)
      from bound False Some nr
      have "\<forall>T \<in> set (regs @ [S]). \<forall>n' r'. cand T = Some (n', r') \<longrightarrow> r' \<le> ?b"
        by auto
      with nonneg none first' show ?thesis unfolding same by blast
    qed
  qed
qed

lemma line_symbols_of_in_range:
  assumes "\<forall>(reel_idx, row_idx) \<in> set payline.
      0 \<le> reel_idx \<and> reel_idx < int (length ex) \<and>
      0 \<le> row_idx \<and> row_idx < int (length (ex ! nat reel_idx))"
  shows "line_symbols_of ex payline =
     Inr (map (\<lambda>(reel_idx, row_idx). ex ! nat reel_idx ! nat row_idx) payline)"
proof -
  have "emap (\<lambda>(reel_idx, row_idx). ebind (py_nth ex reel_idx) (\<lambda>col. py_nth col row_idx)) payline
      = Inr (map (\<lambda>(reel_idx, row_idx). ex ! nat reel_idx ! nat row_idx) payline)"
    using assms
  proof (induction payline)
    case Nil
    show ?case by simp
  next
    case (Cons c payline)
    obtain reel_idx row_idx where c: "c = (reel_idx, row_idx)" by (cases c)
    with Cons.prems have "0 \<le> reel_idx" "reel_idx < int (length ex)"
      "0 \<le> row_idx" "row_idx < int (length (ex ! nat reel_idx))" by auto
    then have "ebind (py_nth ex reel_idx) (\<lambda>col. py_nth col row_idx) =
        Inr (ex ! nat reel_idx ! nat row_idx)"
      by (simp add: py_nth_in_range)
    moreover from Cons have
      "emap (\<lambda>(reel_idx, row_idx). ebind (py_nth ex reel_idx) (\<lambda>col. py_nth col row_idx)) payline
        = Inr (map (\<lambda>(reel_idx, row_idx). ex ! nat reel_idx ! nat row_idx) payline)"
      by simp
    ultimately show ?case by (simp add: c)
  qed
  then show ?thesis by (simp add: line_symbols_of_def)
qed

lemma init_regular_disjoint:
  assumes "init rank cfg = Inr s"
  shows "set (regular_symbols s) \<inter> set (scatter_symbols s) = {}"
    and "wild_symbol s \<notin> set (regular_symbols s)"
proof -
  from init_lookups [OF assms] obtain b p where
    p: "parse_paytable rank (attributes cfg b) = Inr p"
    and r: "regular_symbols s = regular_symbols p" by blast
  have sc: "scatter_symbols s = scatter_symbols (attributes cfg b)"
    and w: "wild_symbol s = wild_symbol (attributes cfg b)"
    using init_fields(11,10) [OF assms] by (simp_all add: attributes_def)
  show "set (regular_symbols s) \<inter> set (scatter_symbols s) = {}"
    unfolding r sc parse_paytable_regular [OF p] by auto
  show "wild_symbol s \<notin> set (regular_symbols s)"
    unfolding r w parse_paytable_regular [OF p] by auto
qed

lemma init_line_pays_numeric:
  assumes "init rank cfg = Inr s"
    and "\<forall>(t, data) \<in> set (cfg_paytable cfg). \<forall>(k, v) \<in> set data.
           isdigit k \<longrightarrow> (\<exists>r. v = Num r)"
  shows "\<forall>k v. line_pays s k = Some v \<longrightarrow> (\<exists>r. v = Num r)"
proof (intro allI impI)
  fix k v
  assume kv: "line_pays s k = Some v"
  obtain t n where k: "k = (t, n)" by (cases k)
  from init_lookups [OF assms(1)] obtain b p where
    p: "parse_paytable rank (attributes cfg b) = Inr p"
    and "line_pays s = line_pays p" by blast
  with kv k have "line_pays p (t, n) = Some v" by simp
  from parse_paytable_line_pays [OF p this]
  obtain data c where "(t, data) \<in> set (cfg_paytable cfg)" "(c, v) \<in> set data" "isdigit c"
    by (auto simp: attributes_def)
  with assms(2) show "\<exists>r. v = Num r" by fastforce
qed

lemma pay_line_eq:
  assumes "line_symbols_of ex payline = Inr line"
    and "check_line_win self line = Inr (best, key)"
    and "base_bet_per_line_display self \<noteq> 0"
  shows "pay_line self ex payline (p, w, l) =
     Inr (if 0 < best
          then (p + best / base_bet_per_line_display self * bet_per_line self, True,
                credit key (best / base_bet_per_line_display self * bet_per_line self) l)
          else (p, w, l))"
  using assms(3) by (simp add: pay_line_def assms(1,2) py_truediv_def Let_def)

text \<open>
  C1.  On a payline whose coordinates lie inside the wild-expanded screen, with as many
  coordinates as there are reels, for a simulator whose regular symbols are not scatter
  symbols, whose line pays are numbers and whose base bet per line is the base display
  bet divided by the number of lines and is not zero: the evaluator returns a payout
  \<open>best\<close> and a key such that no regular symbol has a candidate (the first count with
  an entry, counting down from its run length to its minimum, 2 for Seven and 3
  otherwise) that pays more than \<open>best\<close>; if \<open>best\<close> is positive, it is the payout of
  the candidate of the first regular symbol, in iteration order, whose candidate pays
  that much, every earlier symbol paying strictly less, and the key names that symbol
  and count; otherwise there is no key.  The payline adds
  \<open>best / (base display bet / number of lines) * bet per line\<close> to the spin payout and to
  the ledger entry of that one key, and marks the spin winning, if \<open>best\<close> is positive,
  and changes nothing otherwise.
\<close>

theorem pay_line_best_combination:
  assumes "length payline = num_reels self"
    and "\<forall>(reel_idx, row_idx) \<in> set payline.
      0 \<le> reel_idx \<and> reel_idx < int (length ex) \<and>
      0 \<le> row_idx \<and> row_idx < int (length (ex ! nat reel_idx))"
    and "set (regular_symbols self) \<inter> set (scatter_symbols self) = {}"
    and "\<forall>k v. line_pays self k = Some v \<longrightarrow> (\<exists>r. v = Num r)"
    and "base_bet_per_line_display self = base_bet_for_paytable_display self / num_lines self"
    and "base_bet_per_line_display self \<noteq> 0"
    and "line = map (\<lambda>(reel_idx, row_idx). ex ! nat reel_idx ! nat row_idx) payline"
  shows "\<exists>best key.
     check_line_win self line = Inr (best, key) \<and>
     0 \<le> best \<and> (key = None \<longleftrightarrow> best = 0) \<and>
     (\<forall>S \<in> set (regular_symbols self). \<forall>n r.
        spec_candidate self line S = Some (n, r) \<longrightarrow> r \<le> best) \<and>
     (0 < best \<longrightarrow>
        (\<exists>i < length (regular_symbols self). \<exists>n.
           spec_candidate self line (regular_symbols self ! i) = Some (n, best) \<and>
           key = Some (combo_key (regular_symbols self ! i) n) \<and>
           (\<forall>j < i. \<forall>n' r'.
              spec_candidate self line (regular_symbols self ! j) = Some (n', r') \<longrightarrow>
              r' < best))) \<and>
     pay_line self ex payline (p, w, l) =
       Inr (if 0 < best
            then (p + best / (base_bet_for_paytable_display self / num_lines self)
                        * bet_per_line self,
                  True,
                  credit key (best / (base_bet_for_paytable_display self / num_lines self)
                                * bet_per_line self) l)
            else (p, w, l))"
proof -
  define res where
    "res = fold (\<lambda>S. keep_best (spec_candidate self line S) S) (regular_symbols self) (0, None)"
  define best where "best = fst res"
  define key where "key = snd res"
  have len: "length line = num_reels self" using assms(1,7) by simp
  have win: "check_line_win self line = Inr (best, key)"
    using check_line_win_fold [OF assms(4) len assms(3), of "(0, None)"]
    by (simp add: check_line_win_def res_def best_def key_def)
  have syms: "line_symbols_of ex payline = Inr line"
    using line_symbols_of_in_range [OF assms(2)] assms(7) by simp
  note pay = pay_line_eq [OF syms win assms(6), of p w l, unfolded assms(5)]
  note props = fold_keep_best [of "spec_candidate self line" "regular_symbols self",
      folded res_def, folded best_def key_def]
  from props have 1: "0 \<le> best" by (elim conjE)
  from props have 2: "key = None \<longleftrightarrow> best = 0" by (elim conjE)
  from props have 3: "\<forall>S \<in> set (regular_symbols self). \<forall>n r.
        spec_candidate self line S = Some (n, r) \<longrightarrow> r \<le> best" by (elim conjE)
  from props have 4: "0 < best \<longrightarrow>
        (\<exists>i < length (regular_symbols self). \<exists>n.
           spec_candidate self line (regular_symbols self ! i) = Some (n, best) \<and>
           key = Some (combo_key (regular_symbols self ! i) n) \<and>
           (\<forall>j < i. \<forall>n' r'.
              spec_candidate self line (regular_symbols self ! j) = Some (n', r') \<longrightarrow>
              r' < best))" by (elim conjE)
  from win 1 2 3 4 pay show ?thesis
    by (intro exI [of _ best] exI [of _ key] conjI)
qed

lemma base_game_line_setup:
  "num_reels (projr (init rank (base_game_config strips))) = length strips"
  "set (regular_symbols (projr (init rank (base_game_config strips)))) \<inter>
     set (scatter_symbols (projr (init rank (base_game_config strips)))) = {}"
  "\<forall>k v. line_pays (projr (init rank (base_game_config strips))) k = Some v \<longrightarrow> (\<exists>r. v = Num r)"
  "base_bet_per_line_display (projr (init rank (base_game_config strips))) = 10"
  "base_bet_for_paytable_display (projr (init rank (base_game_config strips))) = 100"
  "num_lines (projr (init rank (base_game_config strips))) = 10"
  "bet_per_line (projr (init rank (base_game_config strips))) = 1"
proof -
  note i = init_base_game_config_projr [of rank strips]
  show "num_reels (projr (init rank (base_game_config strips))) = length strips"
    using init_fields(2) [OF i] by (simp add: base_game_config_def)
  show "set (regular_symbols (projr (init rank (base_game_config strips)))) \<inter>
     set (scatter_symbols (projr (init rank (base_game_config strips)))) = {}"
    by (rule init_regular_disjoint(1) [OF i])
  have "\<forall>(t, data) \<in> set (cfg_paytable (base_game_config strips)). \<forall>(k, v) \<in> set data.
           isdigit k \<longrightarrow> (\<exists>r. v = Num r)"
    by (simp add: base_game_config_def isdigit_def digit_chars_def superscript_chars_def)
  then show "\<forall>k v. line_pays (projr (init rank (base_game_config strips))) k = Some v \<longrightarrow>
      (\<exists>r. v = Num r)"
    by (rule init_line_pays_numeric [OF i])
  show "base_bet_per_line_display (projr (init rank (base_game_config strips))) = 10"
    using init_fields(8) [OF i] by (simp add: base_game_config_def dict_get_def)
  show "base_bet_for_paytable_display (projr (init rank (base_game_config strips))) = 100"
    using init_fields(7) [OF i] by (simp add: base_game_config_def dict_get_def)
  show "num_lines (projr (init rank (base_game_config strips))) = 10"
    using init_fields(5) [OF i] by (simp add: base_game_config_def dict_get_def)
  show "bet_per_line (projr (init rank (base_game_config strips))) = 1"
    using init_fields(4) [OF i] by (simp add: base_game_config_def dict_get_def)
qed

theorem pay_line_best_combination_witness:
  "length top_row = num_reels (projr (init name_length (base_game_config demo_strips))) \<and>
   list_all (\<lambda>(reel_idx, row_idx).
      0 \<le> reel_idx \<and> reel_idx < int (length demo_expanded) \<and>
      0 \<le> row_idx \<and> row_idx < int (length (demo_expanded ! nat reel_idx))) top_row \<and>
   set (regular_symbols (projr (init name_length (base_game_config demo_strips)))) \<inter>
     set (scatter_symbols (projr (init name_length (base_game_config demo_strips)))) = {} \<and>
   base_bet_per_line_display (projr (init name_length (base_game_config demo_strips))) =
     base_bet_for_paytable_display (projr (init name_length (base_game_config demo_strips))) /
     num_lines (projr (init name_length (base_game_config demo_strips))) \<and>
   base_bet_per_line_display (projr (init name_length (base_game_config demo_strips))) \<noteq> 0 \<and>
   map (\<lambda>(reel_idx, row_idx). demo_expanded ! nat reel_idx ! nat row_idx) top_row =
     [''Seven'', ''Wild'', ''Seven'', ''Bell'', ''Seven''] \<and>
   (\<exists>best key.
      check_line_win (projr (init name_length (base_game_config demo_strips)))
        [''Seven'', ''Wild'', ''Seven'', ''Bell'', ''Seven''] = Inr (best, key) \<and>
      pay_line (projr (init name_length (base_game_config demo_strips))) demo_expanded top_row
        (0, False, Map.empty) =
        Inr (if 0 < best then (0 + best / (100 / 10) * 1, True,
                               credit key (best / (100 / 10) * 1) Map.empty)
             else (0, False, Map.empty)))"
proof -
  let ?s = "projr (init name_length (base_game_config demo_strips))"
  let ?line = "[''Seven'', ''Wild'', ''Seven'', ''Bell'', ''Seven'']"
  have 1: "length top_row = num_reels ?s"
    by (simp add: base_game_line_setup top_row_def demo_strips_def)
  have 2: "\<forall>(reel_idx, row_idx) \<in> set top_row.
      0 \<le> reel_idx \<and> reel_idx < int (length demo_expanded) \<and>
      0 \<le> row_idx \<and> row_idx < int (length (demo_expanded ! nat reel_idx))"
    by (simp add: top_row_def demo_expanded_def)
  note 3 = base_game_line_setup(2) [of name_length demo_strips]
  note 4 = base_game_line_setup(3) [of name_length demo_strips]
  have 5: "base_bet_per_line_display ?s = base_bet_for_paytable_display ?s / num_lines ?s"
    by (simp add: base_game_line_setup)
  have 6: "base_bet_per_line_display ?s \<noteq> 0"
    by (simp add: base_game_line_setup)
  have 7: "?line = map (\<lambda>(reel_idx, row_idx). demo_expanded ! nat reel_idx ! nat row_idx) top_row"
    by (simp add: top_row_def demo_expanded_def)
  from pay_line_best_combination [OF 1 2 3 4 5 6 7, of 0 False Map.empty]
  obtain best key where "check_line_win ?s ?line = Inr (best, key)"
    and "pay_line ?s demo_expanded top_row (0, False, Map.empty) =
       Inr (if 0 < best
            then (0 + best / (base_bet_for_paytable_display ?s / num_lines ?s) * bet_per_line ?s,
                  True,
                  credit key (best / (base_bet_for_paytable_display ?s / num_lines ?s)
                                * bet_per_line ?s) Map.empty)
            else (0, False, Map.empty))"
    by blast
  then have 8: "\<exists>best key.
      check_line_win ?s ?line = Inr (best, key) \<and>
      pay_line ?s demo_expanded top_row (0, False, Map.empty) =
        Inr (if 0 < best then (0 + best / (100 / 10) * 1, True,
                               credit key (best / (100 / 10) * 1) Map.empty)
             else (0, False, Map.empty))"
    unfolding base_game_line_setup by blast
  have 9: "list_all (\<lambda>(reel_idx, row_idx).
      0 \<le> reel_idx \<and> reel_idx < int (length demo_expanded) \<and>
      0 \<le> row_idx \<and> row_idx < int (length (demo_expanded ! nat reel_idx))) top_row"
    by (simp add: top_row_def demo_expanded_def)
  from 1 9 3 5 6 7 [symmetric] 8 show ?thesis by (intro conjI)
qed

subsection \<open>The attributes a spin evaluation reads\<close>

lemma count_consecutive_rules:
  assumes "same_rules s t"
  shows "count_consecutive s line target idx c = count_consecutive t line target idx c"
proof (induction idx arbitrary: c)
  case Nil
  show ?case by simp
next
  case (Cons i idx)
  from assms have "wild_symbol s = wild_symbol t" "scatter_symbols s = scatter_symbols t"
    by (simp_all add: same_rules_def)
  with Cons show ?case by (simp split: sum.splits)
qed

lemma scan_counts_rules:
  assumes "same_rules s t"
  shows "scan_counts s target ns best = scan_counts t target ns best"
proof (induction ns)
  case Nil
  show ?case by simp
next
  case (Cons n ns)
  from assms have "line_pays s = line_pays t" by (simp add: same_rules_def)
  with Cons show ?case by (simp split: option.splits)
qed

lemma check_line_win_rules:
  assumes "same_rules s t"
  shows "check_line_win s line = check_line_win t line"
proof -
  from assms have "num_reels s = num_reels t" "regular_symbols s = regular_symbols t"
    by (simp_all add: same_rules_def)
  moreover have "check_symbol s line = check_symbol t line"
    using \<open>num_reels s = num_reels t\<close>
    by (intro ext)
      (simp add: check_symbol_def count_consecutive_rules [OF assms] scan_counts_rules [OF assms])
  ultimately show ?thesis by (simp add: check_line_win_def)
qed

lemma pay_line_rules:
  assumes "same_rules s t"
  shows "pay_line s ex payline acc = pay_line t ex payline acc"
proof -
  from assms have 1: "base_bet_per_line_display s = base_bet_per_line_display t"
    and 2: "bet_per_line s = bet_per_line t"
    by (simp_all add: same_rules_def)
  have 3: "check_line_win s = check_line_win t"
    by (intro ext) (rule check_line_win_rules [OF assms])
  show ?thesis
    unfolding pay_line_def 1 2 3 by (rule refl)
qed

lemma apply_expanding_wilds_rules:
  assumes "same_rules s t"
  shows "apply_expanding_wilds s scr = apply_expanding_wilds t scr"
proof -
  from assms have 1: "wild_symbol s = wild_symbol t" and 2: "num_rows s = num_rows t"
    and 3: "wild_reels s = wild_reels t"
    by (simp_all add: same_rules_def)
  show ?thesis
    unfolding apply_expanding_wilds_def expand_reel_def 1 2 3 by (rule refl)
qed

lemma pay_scatters_rules:
  assumes "same_rules s t"
  shows "pay_scatters s scr acc = pay_scatters t scr acc"
proof -
  from assms have 1: "scatter_pays s ''DollarScatter'' = scatter_pays t ''DollarScatter''"
    and 2: "scatter_pays s ''StarScatter'' = scatter_pays t ''StarScatter''"
    and 3: "base_bet_for_paytable_display s = base_bet_for_paytable_display t"
    and 4: "total_bet_per_spin s = total_bet_per_spin t"
    and 5: "star_scatter_reels s = star_scatter_reels t"
    by (simp_all add: same_rules_def)
  show ?thesis
    unfolding pay_scatters_def pay_scatter_def star_scatter_count_def 1 2 3 4 5 by (rule refl)
qed

lemma evaluate_spin_rules:
  assumes "same_rules s t"
  shows "evaluate_spin s scr l = evaluate_spin t scr l"
proof -
  from assms have 1: "paylines s = paylines t" by (simp add: same_rules_def)
  have 2: "pay_line s = pay_line t"
    by (intro ext) (rule pay_line_rules [OF assms])
  have 3: "apply_expanding_wilds s = apply_expanding_wilds t"
    by (intro ext) (rule apply_expanding_wilds_rules [OF assms])
  have 4: "pay_scatters s = pay_scatters t"
    by (intro ext) (rule pay_scatters_rules [OF assms])
  show ?thesis
    unfolding evaluate_spin_def 1 2 3 4 by (rule refl)
qed

subsection \<open>Steps that add to the loop variables\<close>

lemma apply_credits_append: "apply_credits (cs @ ds) l = apply_credits ds (apply_credits cs l)"
  by (simp add: apply_credits_def)

lemma adds_skip: "adds Inr 0 False []"
  by (simp add: adds_def apply_credits_def)

lemma fails_bind: "fails f e \<Longrightarrow> fails (\<lambda>acc. ebind (f acc) g) e"
  by (simp add: fails_def)

lemma adds_then_fails: "adds f dp dw cs \<Longrightarrow> fails g e \<Longrightarrow> fails (\<lambda>acc. ebind (f acc) g) e"
  by (auto simp: adds_def fails_def)

lemma adds_then_adds:
  "adds f dp dw cs \<Longrightarrow> adds g dp' dw' cs' \<Longrightarrow>
   adds (\<lambda>acc. ebind (f acc) g) (dp + dp') (dw \<or> dw') (cs @ cs')"
  by (auto simp: adds_def apply_credits_append)

lemma pay_scatter_step:
  "(\<exists>e. fails (pay_scatter self symbol n) e) \<or>
   (\<exists>dp dw cs. adds (pay_scatter self symbol n) dp dw cs)"
proof (cases "scatter_pays self symbol")
  case None
  then have "pay_scatter self symbol n = Inr" by (simp add: pay_scatter_def fun_eq_iff)
  with adds_skip show ?thesis by auto
next
  case (Some tbl)
  show ?thesis
  proof (cases "tbl n")
    case None
    with Some have "pay_scatter self symbol n = Inr" by (simp add: pay_scatter_def fun_eq_iff)
    with adds_skip show ?thesis by auto
  next
    case (Some v)
    show ?thesis
    proof (cases "ebind (num v) (\<lambda>raw. py_truediv raw (base_bet_for_paytable_display self))")
      case (Inl e)
      then have "fails (pay_scatter self symbol n) e"
        using Some \<open>scatter_pays self symbol = Some tbl\<close>
        by (auto simp: fails_def pay_scatter_def ebind_eq_Inl_iff)
      then show ?thesis by blast
    next
      case (Inr q)
      then have "adds (pay_scatter self symbol n) (q * total_bet_per_spin self) True
          [(Some (scatter_key symbol n), q * total_bet_per_spin self)]"
        using Some \<open>scatter_pays self symbol = Some tbl\<close>
        by (auto simp: adds_def pay_scatter_def ebind_eq_Inr_iff apply_credits_def Let_def)
      then show ?thesis by blast
    qed
  qed
qed

lemma pay_line_step:
  "(\<exists>e. fails (pay_line self ex payline) e) \<or>
   (\<exists>dp dw cs. adds (pay_line self ex payline) dp dw cs)"
proof (cases "ebind (line_symbols_of ex payline) (check_line_win self)")
  case (Inl e)
  then have "fails (pay_line self ex payline) e"
    by (auto simp: fails_def pay_line_def ebind_eq_Inl_iff)
  then show ?thesis by blast
next
  case (Inr r)
  obtain best key where r: "r = (best, key)" by (cases r)
  from Inr r obtain line where line: "line_symbols_of ex payline = Inr line"
    and win: "check_line_win self line = Inr (best, key)"
    by (auto simp: ebind_eq_Inr_iff)
  show ?thesis
  proof (cases "0 < best")
    case False
    then have "pay_line self ex payline = Inr"
      by (simp add: pay_line_def line win fun_eq_iff)
    with adds_skip show ?thesis by auto
  next
    case True
    show ?thesis
    proof (cases "base_bet_per_line_display self = 0")
      case True
      with \<open>0 < best\<close> have "fails (pay_line self ex payline) ZeroDivisionError"
        by (simp add: fails_def pay_line_def line win py_truediv_def)
      then show ?thesis by blast
    next
      case False
      with True have "adds (pay_line self ex payline)
          (best / base_bet_per_line_display self * bet_per_line self) True
          [(key, best / base_bet_per_line_display self * bet_per_line self)]"
        by (simp add: adds_def pay_line_def line win py_truediv_def apply_credits_def Let_def)
      then show ?thesis by blast
    qed
  qed
qed

lemma efold_steps:
  assumes "\<And>x. (\<exists>e. fails (f x) e) \<or> (\<exists>dp dw cs. adds (f x) dp dw cs)"
  shows "(\<exists>e. fails (efold f xs) e) \<or> (\<exists>dp dw cs. adds (efold f xs) dp dw cs)"
proof (induction xs)
  case Nil
  have "efold f [] = Inr" by (simp add: fun_eq_iff)
  with adds_skip show ?case by auto
next
  case (Cons x xs)
  have eq: "efold f (x # xs) = (\<lambda>acc. ebind (f x acc) (efold f xs))"
    by (simp add: fun_eq_iff)
  from assms [of x] show ?case
  proof (elim disjE exE)
    fix e
    assume "fails (f x) e"
    then have "fails (efold f (x # xs)) e" unfolding eq by (rule fails_bind)
    then show ?thesis by blast
  next
    fix dp dw cs
    assume a: "adds (f x) dp dw cs"
    from Cons show ?thesis
    proof (elim disjE exE)
      fix e
      assume "fails (efold f xs) e"
      with a have "fails (efold f (x # xs)) e" unfolding eq by (rule adds_then_fails)
      then show ?thesis by blast
    next
      fix dp' dw' cs'
      assume "adds (efold f xs) dp' dw' cs'"
      with a have "adds (efold f (x # xs)) (dp + dp') (dw \<or> dw') (cs @ cs')"
        unfolding eq by (rule adds_then_adds)
      then show ?thesis by blast
    qed
  qed
qed

lemma pay_lines_step:
  "(\<exists>e. fails (efold (pay_line self ex) (paylines self)) e) \<or>
   (\<exists>dp dw cs. adds (efold (pay_line self ex) (paylines self)) dp dw cs)"
  by (rule efold_steps) (rule pay_line_step)

lemma pay_scatters_step:
  "(\<exists>e. fails (pay_scatters self scr) e) \<or> (\<exists>dp dw cs. adds (pay_scatters self scr) dp dw cs)"
proof (cases "star_scatter_count self scr")
  case (Inl e)
  have eq: "pay_scatters self scr =
      (\<lambda>acc. ebind (pay_scatter self ''DollarScatter'' (dollar_scatter_count scr) acc)
         (\<lambda>acc1. Inl e))"
    by (simp add: pay_scatters_def Inl fun_eq_iff)
  have "fails (\<lambda>acc1 :: spin_acc. Inl e :: spin_acc result) e" by (simp add: fails_def)
  with pay_scatter_step [of self "''DollarScatter''" "dollar_scatter_count scr"]
  have "\<exists>e'. fails (pay_scatters self scr) e'"
    unfolding eq by (blast intro: fails_bind adds_then_fails)
  then show ?thesis by blast
next
  case (Inr k)
  have eq: "pay_scatters self scr =
      (\<lambda>acc. ebind (pay_scatter self ''DollarScatter'' (dollar_scatter_count scr) acc)
         (pay_scatter self ''StarScatter'' k))"
    by (simp add: pay_scatters_def Inr fun_eq_iff)
  from pay_scatter_step [of self "''DollarScatter''" "dollar_scatter_count scr"]
    pay_scatter_step [of self "''StarScatter''" k]
  show ?thesis
    unfolding eq by (blast intro: fails_bind adds_then_fails adds_then_adds)
qed

lemma evaluate_spin_step:
  "(\<exists>e. \<forall>l. evaluate_spin self scr l = Inl e) \<or>
   (\<exists>p w cs. \<forall>l. evaluate_spin self scr l = Inr (p, w, apply_credits cs l))"
proof (cases "apply_expanding_wilds self scr")
  case (Inl e)
  then show ?thesis by (simp add: evaluate_spin_def)
next
  case (Inr ex)
  have eq: "\<And>l. evaluate_spin self scr l =
      ebind (pay_scatters self scr (0, False, l)) (efold (pay_line self ex) (paylines self))"
    by (simp add: evaluate_spin_def Inr)
  from pay_scatters_step [of self scr] pay_lines_step [of self ex]
  have "(\<exists>e. fails (\<lambda>acc. ebind (pay_scatters self scr acc)
            (efold (pay_line self ex) (paylines self))) e) \<or>
        (\<exists>dp dw cs. adds (\<lambda>acc. ebind (pay_scatters self scr acc)
            (efold (pay_line self ex) (paylines self))) dp dw cs)"
    by (blast intro: fails_bind adds_then_fails adds_then_adds)
  then show ?thesis
  proof (elim disjE exE)
    fix e
    assume "fails (\<lambda>acc. ebind (pay_scatters self scr acc)
            (efold (pay_line self ex) (paylines self))) e"
    then have "\<forall>l. evaluate_spin self scr l = Inl e" by (simp add: eq fails_def)
    then show ?thesis by blast
  next
    fix dp dw cs
    assume "adds (\<lambda>acc. ebind (pay_scatters self scr acc)
            (efold (pay_line self ex) (paylines self))) dp dw cs"
    then have "\<forall>l. evaluate_spin self scr l = Inr (dp, dw, apply_credits cs l)"
      by (simp add: eq adds_def)
    then show ?thesis by blast
  qed
qed

lemma same_rules_with_totals: "same_rules (with_totals self t q n k m l) self"
  by (simp add: same_rules_def with_totals_def)

lemma calculate_spin_payout_with_totals:
  "calculate_spin_payout (with_totals self t q n k m l) scr =
     ebind (evaluate_spin self scr l)
       (\<lambda>(p, w, l'). Inr ((p, w), with_totals self t q n k m l'))"
proof -
  have "evaluate_spin (with_totals self t q n k m l) scr l = evaluate_spin self scr l"
    by (rule evaluate_spin_rules) (rule same_rules_with_totals)
  moreover have "payout_contributions (with_totals self t q n k m l) = l"
    by (simp add: with_totals_def)
  moreover have "\<And>l'. (with_totals self t q n k m l)\<lparr>payout_contributions := l'\<rparr> =
      with_totals self t q n k m l'"
    by (simp add: with_totals_def)
  ultimately show ?thesis by (simp add: calculate_spin_payout_def)
qed

text \<open>
  C8.  The evaluation of a screen does not depend on what the simulator has
  accumulated.  For a simulator and a screen, either the evaluation fails with the same
  error whatever the running totals and the ledger hold, or there are one payout, one
  winning flag and one list of credits that it returns and applies to the ledger
  whatever they hold; the running totals are left as they are.  The simulator it returns
  differs from the one it was given in the ledger only, so a second evaluation of the
  screen returns the same payout and flag and applies the same credits.
\<close>

theorem spin_evaluation_deterministic:
  "(\<exists>e. \<forall>t q n k m l.
      calculate_spin_payout (with_totals self t q n k m l) scr = Inl e) \<or>
   (\<exists>payout winning credits. \<forall>t q n k m l.
      calculate_spin_payout (with_totals self t q n k m l) scr =
        Inr ((payout, winning), with_totals self t q n k m (apply_credits credits l)))"
  using evaluate_spin_step [of self scr]
  by (auto simp: calculate_spin_payout_with_totals)

theorem spin_evaluation_deterministic_witness:
  "fst (projr (calculate_spin_payout
     (with_totals (projr (init name_length (base_game_config demo_strips))) 0 0 0 0 0 Map.empty)
     demo_screen)) =
   fst (projr (calculate_spin_payout
     (with_totals (projr (init name_length (base_game_config demo_strips))) 70 900 12 3 50
        [Some ''Seven x3'' \<mapsto> 50])
     demo_screen))"
  using spin_evaluation_deterministic
    [of "projr (init name_length (base_game_config demo_strips))" demo_screen]
  by auto

subsection \<open>The keys of the ledger\<close>

lemma str_nat_digits: "set (str_nat n) \<subseteq> set digit_chars"
proof (induction n rule: str_nat.induct)
  case (1 n)
  have len: "length digit_chars = 10" by (simp add: digit_chars_def)
  show ?case
  proof (cases "n < 10")
    case True
    then have "digit_chars ! n \<in> set digit_chars" using len by (intro nth_mem) simp
    with True show ?thesis by (subst str_nat.simps) simp
  next
    case False
    have "n mod 10 < length digit_chars" using len by simp
    then have "digit_chars ! (n mod 10) \<in> set digit_chars" by (rule nth_mem)
    with False "1.IH" show ?thesis by (subst str_nat.simps) simp
  qed
qed

lemma takeWhile_stop:
  assumes "\<forall>c \<in> set xs. P c" and "\<not> P y"
  shows "takeWhile P (xs @ y # ys) = xs"
  using assms by (induction xs) simp_all

lemma key_symbol_unique:
  assumes "S @ '' x'' @ str_nat n = T @ '' x'' @ str_nat m"
  shows "S = T"
proof -
  let ?d = "\<lambda>c. c \<in> set digit_chars"
  have x: "\<not> ?d (CHR ''x'')" by (simp add: digit_chars_def)
  have dn: "\<forall>c \<in> set (rev (str_nat n)). ?d c" and dm: "\<forall>c \<in> set (rev (str_nat m)). ?d c"
    using str_nat_digits by auto
  from assms have "rev (S @ '' x'' @ str_nat n) = rev (T @ '' x'' @ str_nat m)" by simp
  then have eq: "rev (str_nat n) @ CHR ''x'' # (CHR '' '' # rev S) =
      rev (str_nat m) @ CHR ''x'' # (CHR '' '' # rev T)" by simp
  then have "takeWhile ?d (rev (str_nat n) @ CHR ''x'' # (CHR '' '' # rev S)) =
      takeWhile ?d (rev (str_nat m) @ CHR ''x'' # (CHR '' '' # rev T))" by simp
  then have "rev (str_nat n) = rev (str_nat m)"
    by (simp only: takeWhile_stop [OF dn x] takeWhile_stop [OF dm x])
  with eq have "rev S = rev T" by simp
  then show ?thesis by simp
qed

lemma scatter_key_symbol: "scatter_key S n = scatter_key T m \<Longrightarrow> S = T"
proof -
  assume "scatter_key S n = scatter_key T m"
  then have "(S @ '' x'' @ str_nat n) @ '' (Scatter)'' = (T @ '' x'' @ str_nat m) @ '' (Scatter)''"
    by (simp add: scatter_key_def)
  then have "S @ '' x'' @ str_nat n = T @ '' x'' @ str_nat m"
    by (simp only: append_same_eq)
  then show "S = T" by (rule key_symbol_unique)
qed

lemma credit_other: "k \<noteq> k' \<Longrightarrow> credit k' x l k = l k"
  by (simp add: credit_def)

lemma spec_scatter_credit_key:
  "(k, x) \<in> set (spec_scatter_credit self S n) \<Longrightarrow> k = Some (scatter_key S n)"
  by (auto simp: spec_scatter_credit_def split: option.splits pyval.splits)

lemma apply_credits_other:
  "\<forall>(k', x) \<in> set cs. k' \<noteq> k \<Longrightarrow> apply_credits cs l k = l k"
proof (induction cs arbitrary: l)
  case Nil
  show ?case by (simp add: apply_credits_def)
next
  case (Cons c cs)
  obtain k' x where c: "c = (k', x)" by (cases c)
  with Cons.prems have "k' \<noteq> k" "\<forall>(k', x) \<in> set cs. k' \<noteq> k" by auto
  with Cons.IH [of "credit k' x l"] show ?case
    by (simp add: apply_credits_def c credit_other)
qed

lemma str_nat_nonempty: "str_nat n \<noteq> []"
  by (subst str_nat.simps) simp

lemma combo_key_last: "last (combo_key T m) \<in> set digit_chars"
proof -
  have "last (combo_key T m) = last (str_nat m)"
    by (simp add: combo_key_def str_nat_nonempty)
  also have "\<dots> \<in> set (str_nat m)" by (rule last_in_set) (rule str_nat_nonempty)
  finally show ?thesis using str_nat_digits by blast
qed

lemma combo_key_not_scatter_key: "combo_key T m \<noteq> scatter_key S n"
proof
  assume "combo_key T m = scatter_key S n"
  then have "last (combo_key T m) = last (scatter_key S n)" by simp
  also have "last (scatter_key S n) = CHR '')''" by (simp add: scatter_key_def)
  finally show False using combo_key_last [of T m] by (simp add: digit_chars_def)
qed

lemma scan_counts_key:
  assumes "scan_counts self T cs best = Inr r"
    and "\<forall>S n. snd best \<noteq> Some (scatter_key S n)"
  shows "\<forall>S n. snd r \<noteq> Some (scatter_key S n)"
  using assms
proof (induction cs)
  case Nil
  then show ?case by simp
next
  case (Cons c cs)
  show ?thesis
  proof (cases "line_pays self (T, c)")
    case None
    with Cons show ?thesis by simp
  next
    case (Some v)
    with Cons.prems(1) have "r = (fst r, Some (combo_key T c)) \<or> r = best"
      by (auto split: sum.splits if_splits)
    with Cons.prems(2) show ?thesis
      by (metis combo_key_not_scatter_key option.inject snd_conv)
  qed
qed

lemma check_symbol_key:
  assumes "check_symbol self line T best = Inr r"
    and "\<forall>S n. snd best \<noteq> Some (scatter_key S n)"
  shows "\<forall>S n. snd r \<noteq> Some (scatter_key S n)"
  using assms by (auto simp: check_symbol_def ebind_eq_Inr_iff dest: scan_counts_key)

lemma check_line_win_key:
  assumes "check_line_win self line = Inr (best, key)"
  shows "key \<noteq> Some (scatter_key S n)"
proof -
  have "\<forall>S n. snd (best, key) \<noteq> Some (scatter_key S n)"
  proof (rule efold_preserves [where P = "\<lambda>b. \<forall>S n. snd b \<noteq> Some (scatter_key S n)"
        and f = "check_symbol self line" and xs = "regular_symbols self"
        and s = "(0, None)"])
    show "\<forall>S n. snd (0 :: rat, None :: string option) \<noteq> Some (scatter_key S n)" by simp
    show "efold (check_symbol self line) (regular_symbols self) (0, None) = Inr (best, key)"
      using assms by (simp add: check_line_win_def)
  next
    fix T b b'
    assume "check_symbol self line T b = Inr b'"
      and "\<forall>S n. snd b \<noteq> Some (scatter_key S n)"
    then show "\<forall>S n. snd b' \<noteq> Some (scatter_key S n)" by (rule check_symbol_key)
  qed
  then show ?thesis by simp
qed

lemma pay_line_keeps_scatter_keys:
  assumes "pay_line self ex payline acc = Inr acc'"
  shows "snd (snd acc') (Some (scatter_key S n)) = snd (snd acc) (Some (scatter_key S n))"
proof -
  obtain p w l where acc: "acc = (p, w, l)" by (cases acc)
  from assms [unfolded pay_line_def Let_def acc]
  obtain line best key where line: "line_symbols_of ex payline = Inr line"
    and win: "check_line_win self line = Inr (best, key)"
    and res: "(if 0 < best
        then ebind (py_truediv best (base_bet_per_line_display self)) (\<lambda>q.
               Inr (p + q * bet_per_line self, True, credit key (q * bet_per_line self) l))
        else Inr (p, w, l)) = Inr acc'"
    by (auto simp: ebind_eq_Inr_iff)
  from check_line_win_key [OF win, of S n] have "Some (scatter_key S n) \<noteq> key" by auto
  then have "credit key x l (Some (scatter_key S n)) = l (Some (scatter_key S n))" for x
    by (rule credit_other)
  with res show ?thesis
    by (auto simp: acc ebind_eq_Inr_iff split: if_splits)
qed

lemma pay_lines_keep_scatter_keys:
  assumes "efold (pay_line self ex) lines acc = Inr acc'"
  shows "snd (snd acc') (Some (scatter_key S n)) = snd (snd acc) (Some (scatter_key S n))"
proof (rule efold_preserves [where
      P = "\<lambda>a. snd (snd a) (Some (scatter_key S n)) = snd (snd acc) (Some (scatter_key S n))",
      OF _ _ assms])
  show "snd (snd acc) (Some (scatter_key S n)) = snd (snd acc) (Some (scatter_key S n))" ..
next
  fix payline a a'
  assume "pay_line self ex payline a = Inr a'"
    and "snd (snd a) (Some (scatter_key S n)) = snd (snd acc) (Some (scatter_key S n))"
  with pay_line_keeps_scatter_keys [of self ex payline a a' S n]
  show "snd (snd a') (Some (scatter_key S n)) = snd (snd acc) (Some (scatter_key S n))" by simp
qed

lemma spec_scatter_credit_cases:
  "spec_scatter_credit self S n = [] \<or>
   (\<exists>a. spec_scatter_credit self S n = [(Some (scatter_key S n), a)])"
  by (auto simp: spec_scatter_credit_def split: option.splits pyval.splits)

lemma scatter_keys_differ:
  "Some (scatter_key ''DollarScatter'' n) \<noteq> Some (scatter_key ''StarScatter'' m)"
  using scatter_key_symbol [of "''DollarScatter''" n "''StarScatter''" m] by auto

lemma scatter_credits_ledger:
  assumes "(key, amount) \<in>
      set (spec_scatter_credit self ''DollarScatter'' n @ spec_scatter_credit self ''StarScatter'' m)"
  shows "apply_credits
      (spec_scatter_credit self ''DollarScatter'' n @ spec_scatter_credit self ''StarScatter'' m)
      l key = Some ((case l key of None \<Rightarrow> 0 | Some v \<Rightarrow> v) + amount)"
  using assms spec_scatter_credit_cases [of self "''DollarScatter''" n]
    spec_scatter_credit_cases [of self "''StarScatter''" m] scatter_keys_differ [of n m]
  by (auto simp: apply_credits_def credit_def)

subsection \<open>The scatter evaluator\<close>

lemma count_list_filter: "count_list col S = length (filter (\<lambda>c. c = S) col)"
  by (induction col) auto

lemma dollar_scatter_count_grid:
  "dollar_scatter_count scr = spec_grid_count ''DollarScatter'' scr"
  unfolding dollar_scatter_count_def spec_grid_count_def
  by (induction scr) (simp_all add: count_list_filter)

lemma star_count_fold:
  assumes "\<forall>r \<in> set rs. 0 \<le> r \<and> r < int (length scr)"
  shows "efold (\<lambda>r_idx n.
              ebind (py_nth scr r_idx) (\<lambda>col.
                Inr (if list_ex (\<lambda>sym. sym = S) col then n + 1 else n))) rs n0 =
     Inr (n0 + length (filter (\<lambda>r. S \<in> set (scr ! nat r)) rs))"
  using assms
proof (induction rs arbitrary: n0)
  case Nil
  show ?case by simp
next
  case (Cons r rs)
  then have r: "0 \<le> r" "r < int (length scr)" by simp_all
  have ex: "list_ex (\<lambda>sym. sym = S) (scr ! nat r) \<longleftrightarrow> S \<in> set (scr ! nat r)"
    by (auto simp: list_ex_iff)
  from Cons.prems have "\<forall>r \<in> set rs. 0 \<le> r \<and> r < int (length scr)" by simp
  note IH = Cons.IH [OF this]
  show ?case
    by (simp add: py_nth_in_range [OF r] ex IH)
qed

lemma star_scatter_count_presence:
  assumes "\<forall>r \<in> set (star_scatter_reels self). 0 \<le> r \<and> r < int (length scr)"
    and "distinct (star_scatter_reels self)"
  shows "star_scatter_count self scr =
     Inr (spec_reel_presence ''StarScatter'' (star_scatter_reels self) scr)"
  using star_count_fold [OF assms(1), of "''StarScatter''" 0] assms(2)
  by (simp add: star_scatter_count_def spec_reel_presence_def distinct_remdups_id)

lemma pay_scatter_credit:
  assumes "pay_scatter self S n (p, w, l) = Inr acc"
  shows "acc = (p + sum_list (map snd (spec_scatter_credit self S n)),
               w \<or> spec_scatter_credit self S n \<noteq> [],
               apply_credits (spec_scatter_credit self S n) l)"
proof (cases "scatter_pays self S")
  case None
  with assms show ?thesis
    by (simp add: pay_scatter_def spec_scatter_credit_def apply_credits_def)
next
  case (Some tbl)
  show ?thesis
  proof (cases "tbl n")
    case None
    with Some assms show ?thesis
      by (simp add: pay_scatter_def spec_scatter_credit_def apply_credits_def)
  next
    case (Some v)
    show ?thesis
    proof (cases v)
      case (Other s)
      with Some \<open>scatter_pays self S = Some tbl\<close> assms show ?thesis
        by (simp add: pay_scatter_def num_def)
    next
      case (Num raw)
      with Some \<open>scatter_pays self S = Some tbl\<close> assms show ?thesis
        by (auto simp: pay_scatter_def num_def py_truediv_def spec_scatter_credit_def
            apply_credits_def Let_def split: if_splits)
    qed
  qed
qed

lemma pay_scatters_credits:
  assumes "pay_scatters self scr (p, w, l) = Inr acc"
    and "\<forall>r \<in> set (star_scatter_reels self). 0 \<le> r \<and> r < int (length scr)"
    and "distinct (star_scatter_reels self)"
  shows "acc =
     (p + sum_list (map snd
            (spec_scatter_credit self ''DollarScatter'' (spec_grid_count ''DollarScatter'' scr) @
             spec_scatter_credit self ''StarScatter''
               (spec_reel_presence ''StarScatter'' (star_scatter_reels self) scr))),
      w \<or> spec_scatter_credit self ''DollarScatter'' (spec_grid_count ''DollarScatter'' scr) @
           spec_scatter_credit self ''StarScatter''
             (spec_reel_presence ''StarScatter'' (star_scatter_reels self) scr) \<noteq> [],
      apply_credits
        (spec_scatter_credit self ''DollarScatter'' (spec_grid_count ''DollarScatter'' scr) @
         spec_scatter_credit self ''StarScatter''
           (spec_reel_presence ''StarScatter'' (star_scatter_reels self) scr)) l)"
proof -
  let ?cD = "spec_scatter_credit self ''DollarScatter'' (spec_grid_count ''DollarScatter'' scr)"
  let ?k = "spec_reel_presence ''StarScatter'' (star_scatter_reels self) scr"
  let ?cS = "spec_scatter_credit self ''StarScatter'' ?k"
  from assms(1) obtain acc1 where
    1: "pay_scatter self ''DollarScatter'' (spec_grid_count ''DollarScatter'' scr) (p, w, l) = Inr acc1"
    and 2: "pay_scatter self ''StarScatter'' ?k acc1 = Inr acc"
    by (auto simp: pay_scatters_def ebind_eq_Inr_iff dollar_scatter_count_grid
        star_scatter_count_presence [OF assms(2,3)])
  from pay_scatter_credit [OF 1]
  have acc1: "acc1 = (p + sum_list (map snd ?cD), w \<or> ?cD \<noteq> [], apply_credits ?cD l)" .
  from pay_scatter_credit [OF 2 [unfolded acc1]]
  show ?thesis by (simp add: apply_credits_append add.assoc)
qed

text \<open>
  C2.  The scatter part of the evaluation reads the original screen.  When the
  evaluation of a screen returns, with the restricted reels distinct and inside the
  screen: the count of DollarScatter is the number of cells of the whole screen that
  hold it, and the count of StarScatter is the number of restricted reels that hold it
  in a visible cell; each of the two symbols whose paytable has an entry for its count
  has the credit \<open>raw payout / base display bet * total bet per spin\<close> on its key; the
  spin payout is the sum of these credits and of what the paylines add, the spin is
  winning if there is such a credit or a payline wins, and the ledger is the one given
  with these credits and then the credits of the paylines applied.  In the ledger
  returned, the entry of the key of each of these credits is the entry it had before
  (0 if it had none) plus the credit, and the entry of every other scatter key is as it
  was before.
\<close>

theorem scatter_evaluation:
  assumes "calculate_spin_payout self scr = Inr ((payout, winning), self')"
    and "\<forall>r \<in> set (star_scatter_reels self). 0 \<le> r \<and> r < int (length scr)"
    and "distinct (star_scatter_reels self)"
  shows "(\<exists>ex lp lw lcs.
     apply_expanding_wilds self scr = Inr ex \<and>
     adds (efold (pay_line self ex) (paylines self)) lp lw lcs \<and>
     payout = sum_list (map snd
        (spec_scatter_credit self ''DollarScatter'' (spec_grid_count ''DollarScatter'' scr) @
         spec_scatter_credit self ''StarScatter''
           (spec_reel_presence ''StarScatter'' (star_scatter_reels self) scr))) + lp \<and>
     winning =
       (spec_scatter_credit self ''DollarScatter'' (spec_grid_count ''DollarScatter'' scr) @
        spec_scatter_credit self ''StarScatter''
          (spec_reel_presence ''StarScatter'' (star_scatter_reels self) scr) \<noteq> [] \<or> lw) \<and>
     payout_contributions self' =
       apply_credits
         (spec_scatter_credit self ''DollarScatter'' (spec_grid_count ''DollarScatter'' scr) @
          spec_scatter_credit self ''StarScatter''
            (spec_reel_presence ''StarScatter'' (star_scatter_reels self) scr) @ lcs)
         (payout_contributions self)) \<and>
   (\<forall>key amount.
      (key, amount) \<in> set
        (spec_scatter_credit self ''DollarScatter'' (spec_grid_count ''DollarScatter'' scr) @
         spec_scatter_credit self ''StarScatter''
           (spec_reel_presence ''StarScatter'' (star_scatter_reels self) scr)) \<longrightarrow>
      payout_contributions self' key =
        Some ((case payout_contributions self key of None \<Rightarrow> 0 | Some v \<Rightarrow> v) + amount)) \<and>
   (\<forall>S n.
      Some (scatter_key S n) \<notin> fst ` set
        (spec_scatter_credit self ''DollarScatter'' (spec_grid_count ''DollarScatter'' scr) @
         spec_scatter_credit self ''StarScatter''
           (spec_reel_presence ''StarScatter'' (star_scatter_reels self) scr)) \<longrightarrow>
      payout_contributions self' (Some (scatter_key S n)) =
        payout_contributions self (Some (scatter_key S n)))"
proof -
  let ?cs = "spec_scatter_credit self ''DollarScatter'' (spec_grid_count ''DollarScatter'' scr) @
         spec_scatter_credit self ''StarScatter''
           (spec_reel_presence ''StarScatter'' (star_scatter_reels self) scr)"
  from assms(1) obtain l' where ev:
    "evaluate_spin self scr (payout_contributions self) = Inr (payout, winning, l')"
    and l': "payout_contributions self' = l'"
    by (auto simp: calculate_spin_payout_def ebind_eq_Inr_iff)
  from ev obtain ex acc where ex: "apply_expanding_wilds self scr = Inr ex"
    and sc: "pay_scatters self scr (0, False, payout_contributions self) = Inr acc"
    and ln: "efold (pay_line self ex) (paylines self) acc = Inr (payout, winning, l')"
    by (auto simp: evaluate_spin_def ebind_eq_Inr_iff)
  from pay_scatters_credits [OF sc assms(2,3)]
  have acc: "acc = (sum_list (map snd ?cs), ?cs \<noteq> [],
      apply_credits ?cs (payout_contributions self))" by simp
  have "\<not> fails (efold (pay_line self ex) (paylines self)) e" for e
  proof
    assume "fails (efold (pay_line self ex) (paylines self)) e"
    then have "efold (pay_line self ex) (paylines self) acc = Inl e"
      unfolding fails_def by blast
    with ln show False by simp
  qed
  with pay_lines_step [of self ex]
  obtain lp lw lcs where lines: "adds (efold (pay_line self ex) (paylines self)) lp lw lcs"
    by blast
  with ln acc have "payout = sum_list (map snd ?cs) + lp" "winning = (?cs \<noteq> [] \<or> lw)"
    "l' = apply_credits (?cs @ lcs) (payout_contributions self)"
    by (simp_all add: adds_def apply_credits_append)
  with ex lines l' have first: "\<exists>ex lp lw lcs.
     apply_expanding_wilds self scr = Inr ex \<and>
     adds (efold (pay_line self ex) (paylines self)) lp lw lcs \<and>
     payout = sum_list (map snd ?cs) + lp \<and>
     winning = (?cs \<noteq> [] \<or> lw) \<and>
     payout_contributions self' = apply_credits (?cs @ lcs) (payout_contributions self)"
    by blast
  have kept: "l' (Some (scatter_key S n)) =
      apply_credits ?cs (payout_contributions self) (Some (scatter_key S n))" for S n
    using pay_lines_keep_scatter_keys [OF ln, of S n] by (simp add: acc)
  have second: "\<forall>key amount. (key, amount) \<in> set ?cs \<longrightarrow>
      payout_contributions self' key =
        Some ((case payout_contributions self key of None \<Rightarrow> 0 | Some v \<Rightarrow> v) + amount)"
  proof (intro allI impI)
    fix key amount
    assume m: "(key, amount) \<in> set ?cs"
    then obtain S n where key: "key = Some (scatter_key S n)"
      by (auto dest: spec_scatter_credit_key)
    from scatter_credits_ledger [OF m, of "payout_contributions self"] kept [of S n]
    show "payout_contributions self' key =
        Some ((case payout_contributions self key of None \<Rightarrow> 0 | Some v \<Rightarrow> v) + amount)"
      by (simp add: key l')
  qed
  have third: "\<forall>S n. Some (scatter_key S n) \<notin> fst ` set ?cs \<longrightarrow>
      payout_contributions self' (Some (scatter_key S n)) =
        payout_contributions self (Some (scatter_key S n))"
  proof (intro allI impI)
    fix S n
    assume "Some (scatter_key S n) \<notin> fst ` set ?cs"
    then have "\<forall>(k', x) \<in> set ?cs. k' \<noteq> Some (scatter_key S n)" by force
    from apply_credits_other [OF this, of "payout_contributions self"] kept [of S n]
    show "payout_contributions self' (Some (scatter_key S n)) =
        payout_contributions self (Some (scatter_key S n))"
      by (simp add: l')
  qed
  from first second third show ?thesis
    unfolding append_assoc by (intro conjI)
qed

lemma scatter_config_init: "init name_length scatter_config = Inr (projr (init name_length scatter_config))"
  by (rule init_projr)
    (simp_all add: scatter_config_def base_game_config_def dict_get_def config_keys)

lemma scatter_config_star_reels:
  "star_scatter_reels (projr (init name_length scatter_config)) = [0, 2, 4]"
  using init_fields(13) [OF scatter_config_init]
  by (simp add: scatter_config_def base_game_config_def dict_get_def)

lemma scatter_screen_spin:
  "\<not> isl (calculate_spin_payout (projr (init name_length scatter_config)) scatter_screen)"
  "fst (projr (calculate_spin_payout (projr (init name_length scatter_config)) scatter_screen)) = (50, True)"
  by code_simp+

theorem scatter_evaluation_witness:
  "calculate_spin_payout (projr (init name_length scatter_config)) scatter_screen =
     Inr ((50, True),
          snd (projr (calculate_spin_payout (projr (init name_length scatter_config)) scatter_screen))) \<and>
   star_scatter_reels (projr (init name_length scatter_config)) = [0, 2, 4] \<and>
   length scatter_screen = 5 \<and>
   spec_scatter_credit (projr (init name_length scatter_config)) ''DollarScatter''
     (spec_grid_count ''DollarScatter'' scatter_screen) =
     [(Some ''DollarScatter x3 (Scatter)'', 50)] \<and>
   spec_scatter_credit (projr (init name_length scatter_config)) ''StarScatter''
     (spec_reel_presence ''StarScatter'' (star_scatter_reels (projr (init name_length scatter_config)))
        scatter_screen) = [] \<and>
   (\<exists>ex lp lw lcs.
      apply_expanding_wilds (projr (init name_length scatter_config)) scatter_screen = Inr ex \<and>
      adds (efold (pay_line (projr (init name_length scatter_config)) ex)
              (paylines (projr (init name_length scatter_config)))) lp lw lcs \<and>
      (50 :: rat) = sum_list (map snd [(Some ''DollarScatter x3 (Scatter)'', 50 :: rat)]) + lp \<and>
      payout_contributions
        (snd (projr (calculate_spin_payout (projr (init name_length scatter_config)) scatter_screen))) =
        apply_credits ((Some ''DollarScatter x3 (Scatter)'', 50) # lcs)
          (payout_contributions (projr (init name_length scatter_config)))) \<and>
   payout_contributions (projr (init name_length scatter_config))
     (Some ''DollarScatter x3 (Scatter)'') = None \<and>
   payout_contributions
     (snd (projr (calculate_spin_payout (projr (init name_length scatter_config)) scatter_screen)))
     (Some ''DollarScatter x3 (Scatter)'') = Some 50"
proof -
  let ?s = "projr (init name_length scatter_config)"
  let ?r = "calculate_spin_payout ?s scatter_screen"
  have run: "?r = Inr ((50, True), snd (projr ?r))"
    using scatter_screen_spin by (cases ?r) (auto simp: prod_eq_iff)
  have reels: "star_scatter_reels ?s = [0, 2, 4]" by (rule scatter_config_star_reels)
  have len: "length scatter_screen = 5" by (simp add: scatter_screen_def)
  have 1: "\<forall>r \<in> set (star_scatter_reels ?s). 0 \<le> r \<and> r < int (length scatter_screen)"
    by (simp add: reels len)
  have 2: "distinct (star_scatter_reels ?s)" by (simp add: reels)
  have cD: "spec_scatter_credit ?s ''DollarScatter''
     (spec_grid_count ''DollarScatter'' scatter_screen) =
     [(Some ''DollarScatter x3 (Scatter)'', 50)]"
    by code_simp
  have cS: "spec_scatter_credit ?s ''StarScatter''
     (spec_reel_presence ''StarScatter'' (star_scatter_reels ?s) scatter_screen) = []"
    by code_simp
  note t = scatter_evaluation [OF run 1 2, unfolded cD cS]
  from conjunct1 [OF t]
  have first: "\<exists>ex lp lw lcs.
      apply_expanding_wilds ?s scatter_screen = Inr ex \<and>
      adds (efold (pay_line ?s ex) (paylines ?s)) lp lw lcs \<and>
      (50 :: rat) = sum_list (map snd [(Some ''DollarScatter x3 (Scatter)'', 50 :: rat)]) + lp \<and>
      payout_contributions (snd (projr ?r)) =
        apply_credits ((Some ''DollarScatter x3 (Scatter)'', 50) # lcs)
          (payout_contributions ?s)"
    by (simp only: append_Nil2 append_Cons append_Nil) blast
  have before: "payout_contributions ?s (Some ''DollarScatter x3 (Scatter)'') = None"
    using init_fields(16) [OF scatter_config_init] by simp
  from conjunct1 [OF conjunct2 [OF t]]
  have "(Some ''DollarScatter x3 (Scatter)'', 50) \<in>
          set ([(Some ''DollarScatter x3 (Scatter)'', 50 :: rat)] @ []) \<longrightarrow>
      payout_contributions (snd (projr ?r)) (Some ''DollarScatter x3 (Scatter)'') =
        Some ((case payout_contributions ?s (Some ''DollarScatter x3 (Scatter)'') of
                 None \<Rightarrow> 0 | Some v \<Rightarrow> v) + 50)"
    by (elim allE)
  then have after: "payout_contributions (snd (projr ?r)) (Some ''DollarScatter x3 (Scatter)'') =
      Some 50"
    by (simp add: before)
  from run reels len cD cS first before after show ?thesis by (intro conjI)
qed

subsection \<open>The scatter symbols the evaluation knows\<close>

lemma pay_scatters_reads:
  assumes "scatter_pays s ''DollarScatter'' = scatter_pays t ''DollarScatter''"
    and "scatter_pays s ''StarScatter'' = scatter_pays t ''StarScatter''"
    and "base_bet_for_paytable_display s = base_bet_for_paytable_display t"
    and "total_bet_per_spin s = total_bet_per_spin t"
    and "star_scatter_reels s = star_scatter_reels t"
  shows "pay_scatters s scr acc = pay_scatters t scr acc"
  unfolding pay_scatters_def pay_scatter_def star_scatter_count_def assms by (rule refl)

text \<open>
  C9.  For a symbol \<open>S\<close> that is neither \<open>DollarScatter\<close> nor \<open>StarScatter\<close>: the scatter
  part of the evaluation is the same whatever the scatter paytable of \<open>S\<close> holds and
  whatever the configured set of scatter symbols is; the whole evaluation of a screen is
  the same whatever the scatter paytable of \<open>S\<close> holds; and the scatter part leaves the
  ledger entry of every scatter key of \<open>S\<close> as it was.  Only the entries of
  \<open>scatter_pays\<close> under the two names \<open>DollarScatter\<close> and \<open>StarScatter\<close> are read.
\<close>

theorem other_scatter_symbols_never_pay:
  assumes "S \<noteq> ''DollarScatter''" and "S \<noteq> ''StarScatter''"
  shows "pay_scatters (self\<lparr>scatter_symbols := ss, scatter_pays := (scatter_pays self)(S := tbl)\<rparr>)
        scr acc = pay_scatters self scr acc \<and>
     evaluate_spin (self\<lparr>scatter_pays := (scatter_pays self)(S := tbl)\<rparr>) scr l =
       evaluate_spin self scr l \<and>
     (\<forall>p w p' w' l' n. pay_scatters self scr (p, w, l) = Inr (p', w', l') \<longrightarrow>
        l' (Some (scatter_key S n)) = l (Some (scatter_key S n)))"
proof (intro conjI allI impI)
  show "pay_scatters (self\<lparr>scatter_symbols := ss, scatter_pays := (scatter_pays self)(S := tbl)\<rparr>)
        scr acc = pay_scatters self scr acc"
    using assms by (intro pay_scatters_reads) simp_all
  have "same_rules (self\<lparr>scatter_pays := (scatter_pays self)(S := tbl)\<rparr>) self"
    using assms by (simp add: same_rules_def)
  then show "evaluate_spin (self\<lparr>scatter_pays := (scatter_pays self)(S := tbl)\<rparr>) scr l =
       evaluate_spin self scr l"
    by (rule evaluate_spin_rules)
next
  fix p w p' w' l' n
  assume run: "pay_scatters self scr (p, w, l) = Inr (p', w', l')"
  let ?k = "Some (scatter_key S n)"
  from run obtain acc1 k where
    1: "pay_scatter self ''DollarScatter'' (dollar_scatter_count scr) (p, w, l) = Inr acc1"
    and 2: "pay_scatter self ''StarScatter'' k acc1 = Inr (p', w', l')"
    by (auto simp: pay_scatters_def ebind_eq_Inr_iff)
  let ?cD = "spec_scatter_credit self ''DollarScatter'' (dollar_scatter_count scr)"
  let ?cS = "spec_scatter_credit self ''StarScatter'' k"
  from pay_scatter_credit [OF 1]
  have acc1: "acc1 = (p + sum_list (map snd ?cD), w \<or> ?cD \<noteq> [], apply_credits ?cD l)" .
  from pay_scatter_credit [OF 2 [unfolded acc1]]
  have l': "l' = apply_credits ?cS (apply_credits ?cD l)" by simp
  have "\<forall>(k', x) \<in> set ?cD. k' \<noteq> ?k"
    using assms(1) by (auto dest!: spec_scatter_credit_key scatter_key_symbol)
  moreover have "\<forall>(k', x) \<in> set ?cS. k' \<noteq> ?k"
    using assms(2) by (auto dest!: spec_scatter_credit_key scatter_key_symbol)
  ultimately show "l' ?k = l ?k"
    unfolding l' by (simp add: apply_credits_other)
qed

lemma bonus_screen_spin:
  "scatter_pays (projr (init name_length bonus_config)) ''Bonus'' \<noteq> None"
  "fst (projr (calculate_spin_payout (projr (init name_length bonus_config)) bonus_screen)) = (0, False)"
  "payout_contributions
     (snd (projr (calculate_spin_payout (projr (init name_length bonus_config)) bonus_screen)))
     (Some ''Bonus x3 (Scatter)'') = None"
  by code_simp+

theorem other_scatter_symbols_never_pay_witness:
  "''Bonus'' \<noteq> ''DollarScatter'' \<and> ''Bonus'' \<noteq> ''StarScatter'' \<and>
   scatter_pays (projr (init name_length bonus_config)) ''Bonus'' \<noteq> None \<and>
   pay_scatters
     ((projr (init name_length bonus_config))
        \<lparr>scatter_symbols := [],
         scatter_pays := (scatter_pays (projr (init name_length bonus_config)))(''Bonus'' := None)\<rparr>)
     bonus_screen (0, False, Map.empty) =
   pay_scatters (projr (init name_length bonus_config)) bonus_screen (0, False, Map.empty) \<and>
   fst (projr (calculate_spin_payout (projr (init name_length bonus_config)) bonus_screen)) = (0, False) \<and>
   payout_contributions
     (snd (projr (calculate_spin_payout (projr (init name_length bonus_config)) bonus_screen)))
     (Some ''Bonus x3 (Scatter)'') = None"
proof -
  have 1: "''Bonus'' \<noteq> ''DollarScatter''" and 2: "''Bonus'' \<noteq> ''StarScatter''" by simp_all
  from other_scatter_symbols_never_pay [OF 1 2]
  have "pay_scatters
     ((projr (init name_length bonus_config))
        \<lparr>scatter_symbols := [],
         scatter_pays := (scatter_pays (projr (init name_length bonus_config)))(''Bonus'' := None)\<rparr>)
     bonus_screen (0, False, Map.empty) =
     pay_scatters (projr (init name_length bonus_config)) bonus_screen (0, False, Map.empty)"
    by blast
  with 1 2 bonus_screen_spin show ?thesis by (intro conjI)
qed

subsection \<open>The paytable entry of the wild symbol\<close>

lemma fold_commute:
  assumes "\<And>x s. f x (h s) = h (f x s)"
  shows "fold f xs (h s) = h (fold f xs s)"
  by (induction xs arbitrary: s) (simp_all add: assms)

lemma paytable_update_first:
  "s\<lparr>line_pays := a, paytable := pt\<rparr> = s\<lparr>paytable := pt, line_pays := a\<rparr>"
  "s\<lparr>scatter_pays := b, paytable := pt\<rparr> = s\<lparr>paytable := pt, scatter_pays := b\<rparr>"
  "s\<lparr>regular_symbols := c, paytable := pt\<rparr> = s\<lparr>paytable := pt, regular_symbols := c\<rparr>"
  by (cases s; simp)+

lemma efold_commute:
  assumes "\<And>x s. f x (h s) = map_sum id h (f x s)"
  shows "efold f xs (h s) = map_sum id h (efold f xs s)"
proof (induction xs arbitrary: s)
  case Nil
  show ?case by simp
next
  case (Cons x xs)
  show ?case
  proof (cases "f x s")
    case (Inl e)
    then show ?thesis by (simp add: assms)
  next
    case (Inr s1)
    with Cons.IH [of s1] show ?thesis by (simp add: assms)
  qed
qed

lemma store_pay_paytable:
  "store_pay symbol kv (s\<lparr>paytable := pt\<rparr>) =
   map_sum id (\<lambda>t. t\<lparr>paytable := pt\<rparr>) (store_pay symbol kv s)"
  by (cases kv; cases "py_int (fst kv)") (simp_all add: store_pay_def)

lemma parse_item_paytable:
  "parse_item rank item (s\<lparr>paytable := pt\<rparr>) =
   map_sum id (\<lambda>t. t\<lparr>paytable := pt\<rparr>) (parse_item rank item s)"
proof (cases item)
  case (Pair symbol data)
  have "efold (store_pay symbol) data
      ((s\<lparr>regular_symbols := set_add rank symbol (regular_symbols s)\<rparr>)\<lparr>paytable := pt\<rparr>) =
      map_sum id (\<lambda>t. t\<lparr>paytable := pt\<rparr>)
        (efold (store_pay symbol) data
           (s\<lparr>regular_symbols := set_add rank symbol (regular_symbols s)\<rparr>))"
    by (rule efold_commute) (rule store_pay_paytable)
  then show ?thesis
    by (cases "digit_dict data") (simp_all add: parse_item_def Pair paytable_update_first)
qed

lemma add_regular_paytable:
  "add_regular rank nm (s\<lparr>paytable := pt\<rparr>) = (add_regular rank nm s)\<lparr>paytable := pt\<rparr>"
  by (simp add: add_regular_def)

lemma parse_loop_skip_wild:
  "efold (parse_item rank) items s =
   efold (parse_item rank) (filter (\<lambda>item. fst item \<noteq> wild_symbol s) items) s"
proof (induction items arbitrary: s)
  case Nil
  show ?case by simp
next
  case (Cons item items)
  show ?case
  proof (cases "fst item = wild_symbol s")
    case True
    then have "parse_item rank item s = Inr s" by (cases item) (simp add: parse_item_def)
    with True Cons.IH [of s] show ?thesis by simp
  next
    case False
    show ?thesis
    proof (cases "parse_item rank item s")
      case (Inl e)
      with False show ?thesis by simp
    next
      case (Inr s1)
      from parse_item_setup(1) [OF Inr] have "wild_symbol s1 = wild_symbol s" .
      with False Inr Cons.IH [of s1] show ?thesis by simp
    qed
  qed
qed

lemma add_regular_fold_skip_wild:
  "fold (add_regular rank) names s =
   fold (add_regular rank) (filter (\<lambda>nm. nm \<noteq> wild_symbol s) names) s"
proof (induction names arbitrary: s)
  case Nil
  show ?case by simp
next
  case (Cons nm names)
  have w: "wild_symbol (add_regular rank nm s) = wild_symbol s"
    by (simp add: add_regular_def)
  show ?case
  proof (cases "nm = wild_symbol s")
    case True
    then have "add_regular rank nm s = s" by (simp add: add_regular_def)
    with True Cons.IH [of s] show ?thesis by simp
  next
    case False
    with Cons.IH [of "add_regular rank nm s"] show ?thesis by (simp add: w)
  qed
qed

lemma parse_paytable_skip_wild:
  assumes "filter (\<lambda>item. fst item \<noteq> wild_symbol s) pt =
           filter (\<lambda>item. fst item \<noteq> wild_symbol s) (paytable s)"
  shows "parse_paytable rank (s\<lparr>paytable := pt\<rparr>) =
         map_sum id (\<lambda>t. t\<lparr>paytable := pt\<rparr>) (parse_paytable rank s)"
proof -
  let ?w = "wild_symbol s"
  let ?s0 = "s\<lparr>line_pays := Map.empty, scatter_pays := Map.empty, regular_symbols := []\<rparr>"
  let ?h = "\<lambda>t :: simulator. t\<lparr>paytable := pt\<rparr>"
  have names: "filter (\<lambda>nm. nm \<noteq> ?w) (map fst pt) = filter (\<lambda>nm. nm \<noteq> ?w) (map fst (paytable s))"
    using arg_cong [OF assms, of "map fst"] by (simp add: filter_map comp_def)
  have items: "efold (parse_item rank) pt ?s0 = efold (parse_item rank) (paytable s) ?s0"
    using parse_loop_skip_wild [of rank pt ?s0] parse_loop_skip_wild [of rank "paytable s" ?s0]
      assms
    by simp
  have "efold (parse_item rank) pt (?h ?s0) = map_sum id ?h (efold (parse_item rank) pt ?s0)"
    by (rule efold_commute) (rule parse_item_paytable)
  then have loop: "efold (parse_item rank) pt (?h ?s0) =
      map_sum id ?h (efold (parse_item rank) (paytable s) ?s0)"
    by (simp add: items)
  have left: "parse_paytable rank (?h s) =
      map_sum id (\<lambda>s1. fold (add_regular rank) (map fst pt) s1)
        (efold (parse_item rank) pt (?h ?s0))"
    by (simp add: parse_paytable_eq paytable_update_first)
  show ?thesis
  proof (cases "efold (parse_item rank) (paytable s) ?s0")
    case (Inl e)
    show ?thesis
      unfolding left loop parse_paytable_eq [of rank s] Inl by simp
  next
    case (Inr s1)
    from parse_loop_setup(1) [OF Inr] have w1: "wild_symbol s1 = ?w" by simp
    have "fold (add_regular rank) (map fst pt) (?h s1) =
        ?h (fold (add_regular rank) (map fst pt) s1)"
      by (rule fold_commute) (rule add_regular_paytable)
    also have "fold (add_regular rank) (map fst pt) s1 =
        fold (add_regular rank) (map fst (paytable s)) s1"
      using add_regular_fold_skip_wild [of rank "map fst pt" s1]
        add_regular_fold_skip_wild [of rank "map fst (paytable s)" s1] names
      by (simp add: w1)
    finally have "fold (add_regular rank) (map fst pt) (s1\<lparr>paytable := pt\<rparr>) =
        (fold (add_regular rank) (map fst (paytable s)) s1)\<lparr>paytable := pt\<rparr>" .
    then show ?thesis
      unfolding left loop parse_paytable_eq [of rank s] Inr by simp
  qed
qed

lemma init_skip_wild:
  assumes "filter (\<lambda>item. fst item \<noteq> dict_get (cfg_wild_symbol cfg) ''Wild'') pt =
           filter (\<lambda>item. fst item \<noteq> dict_get (cfg_wild_symbol cfg) ''Wild'') (cfg_paytable cfg)"
  shows "init rank (cfg\<lparr>cfg_paytable := pt\<rparr>) =
         map_sum id (\<lambda>s. s\<lparr>paytable := pt\<rparr>) (init rank cfg)"
proof -
  have a: "attributes (cfg\<lparr>cfg_paytable := pt\<rparr>) b = (attributes cfg b)\<lparr>paytable := pt\<rparr>" for b
    by (simp add: attributes_def)
  have p: "parse_paytable rank ((attributes cfg b)\<lparr>paytable := pt\<rparr>) =
      map_sum id (\<lambda>t. t\<lparr>paytable := pt\<rparr>) (parse_paytable rank (attributes cfg b))" for b
    using assms by (intro parse_paytable_skip_wild) (simp add: attributes_def)
  show ?thesis
    by (cases "parse_paytable rank (attributes cfg
                (dict_get (cfg_base_bet_for_paytable_display cfg) 100 /
                 dict_get (cfg_num_lines cfg) 10))")
      (simp_all add: init_eq a p)
qed

text \<open>
  C10.  Two configurations that differ in the paytable only, and there only in the
  entries keyed by the wild symbol (the other entries being the same, in the same
  order): constructing the simulator fails for both or for neither, the two simulators
  differ in the stored raw paytable only, and on every screen and from every ledger the
  evaluation of a spin returns the same payout, the same winning flag and the same
  ledger.
\<close>

theorem wild_paytable_entries_ignored:
  assumes "filter (\<lambda>item. fst item \<noteq> dict_get (cfg_wild_symbol cfg) ''Wild'') pt =
           filter (\<lambda>item. fst item \<noteq> dict_get (cfg_wild_symbol cfg) ''Wild'') (cfg_paytable cfg)"
  shows "init rank (cfg\<lparr>cfg_paytable := pt\<rparr>) = map_sum id (\<lambda>s. s\<lparr>paytable := pt\<rparr>) (init rank cfg) \<and>
     (\<forall>s scr l. evaluate_spin (s\<lparr>paytable := pt\<rparr>) scr l = evaluate_spin s scr l) \<and>
     (\<forall>s scr. calculate_spin_payout (s\<lparr>paytable := pt\<rparr>) scr =
        map_sum id (\<lambda>(r, s'). (r, s'\<lparr>paytable := pt\<rparr>)) (calculate_spin_payout s scr))"
proof (intro conjI allI)
  show "init rank (cfg\<lparr>cfg_paytable := pt\<rparr>) = map_sum id (\<lambda>s. s\<lparr>paytable := pt\<rparr>) (init rank cfg)"
    using assms by (rule init_skip_wild)
next
  fix s :: simulator and scr l
  have "same_rules (s\<lparr>paytable := pt\<rparr>) s" by (simp add: same_rules_def)
  then show ev: "evaluate_spin (s\<lparr>paytable := pt\<rparr>) scr l = evaluate_spin s scr l"
    by (rule evaluate_spin_rules)
next
  fix s :: simulator and scr
  have "same_rules (s\<lparr>paytable := pt\<rparr>) s" by (simp add: same_rules_def)
  then have "evaluate_spin (s\<lparr>paytable := pt\<rparr>) scr (payout_contributions s) =
      evaluate_spin s scr (payout_contributions s)"
    by (rule evaluate_spin_rules)
  then show "calculate_spin_payout (s\<lparr>paytable := pt\<rparr>) scr =
        map_sum id (\<lambda>(r, s'). (r, s'\<lparr>paytable := pt\<rparr>)) (calculate_spin_payout s scr)"
    by (cases "evaluate_spin s scr (payout_contributions s)")
      (auto simp: calculate_spin_payout_def)
qed

theorem wild_paytable_entries_ignored_witness:
  "filter (\<lambda>item. fst item \<noteq> dict_get (cfg_wild_symbol unchecked_config) ''Wild'')
     rewild_paytable =
   filter (\<lambda>item. fst item \<noteq> dict_get (cfg_wild_symbol unchecked_config) ''Wild'')
     (cfg_paytable unchecked_config) \<and>
   rewild_paytable \<noteq> cfg_paytable unchecked_config \<and>
   init name_length (unchecked_config\<lparr>cfg_paytable := rewild_paytable\<rparr>) =
     map_sum id (\<lambda>s. s\<lparr>paytable := rewild_paytable\<rparr>) (init name_length unchecked_config) \<and>
   evaluate_spin ((projr (init name_length unchecked_config))\<lparr>paytable := rewild_paytable\<rparr>)
     demo_screen Map.empty =
   evaluate_spin (projr (init name_length unchecked_config)) demo_screen Map.empty"
proof -
  have 1: "filter (\<lambda>item. fst item \<noteq> dict_get (cfg_wild_symbol unchecked_config) ''Wild'')
     rewild_paytable =
   filter (\<lambda>item. fst item \<noteq> dict_get (cfg_wild_symbol unchecked_config) ''Wild'')
     (cfg_paytable unchecked_config)"
    by (simp add: unchecked_config_def base_game_config_def rewild_paytable_def dict_get_def)
  have 2: "rewild_paytable \<noteq> cfg_paytable unchecked_config"
    by (simp add: unchecked_config_def rewild_paytable_def)
  from wild_paytable_entries_ignored [OF 1] 1 2 show ?thesis by blast
qed

subsection \<open>Paytables that pay nothing\<close>

lemma scan_counts_zero:
  assumes "\<forall>k v. line_pays self k = Some v \<longrightarrow> v = Num 0"
  shows "scan_counts self S ns (0, None) = Inr (0, None)"
proof (induction ns)
  case Nil
  show ?case by simp
next
  case (Cons n ns)
  show ?case
  proof (cases "line_pays self (S, n)")
    case None
    with Cons show ?thesis by simp
  next
    case (Some v)
    with assms have "v = Num 0" by blast
    with Some show ?thesis by (simp add: num_def)
  qed
qed

lemma check_line_win_zero:
  assumes "\<forall>k v. line_pays self k = Some v \<longrightarrow> v = Num 0"
    and "check_line_win self line = Inr r"
  shows "r = (0, None)"
proof -
  have "efold (check_symbol self line) (regular_symbols self) (0, None) = Inr r"
    using assms(2) by (simp add: check_line_win_def)
  then show ?thesis
  proof (rule efold_preserves [rotated 2])
    fix S b b'
    assume "check_symbol self line S b = Inr b'" and "b = (0, None)"
    then show "b' = (0, None)"
      by (auto simp: check_symbol_def ebind_eq_Inr_iff scan_counts_zero [OF assms(1)])
  next
    show "(0 :: rat, None :: string option) = (0, None)" by simp
  qed
qed

lemma pay_line_zero:
  assumes "\<forall>k v. line_pays self k = Some v \<longrightarrow> v = Num 0"
    and "pay_line self ex payline acc = Inr acc'"
  shows "acc' = acc"
proof -
  from assms(2) obtain line r where "check_line_win self line = Inr r"
    and r: "(case r of (raw_line_payout, winning_combo_key) \<Rightarrow>
       if raw_line_payout > 0
       then ebind (py_truediv raw_line_payout (base_bet_per_line_display self)) (\<lambda>q.
              let scaled_line_payout = q * bet_per_line self
              in (case acc of (current_spin_payout, is_winning_spin, contributions) \<Rightarrow>
                    Inr (current_spin_payout + scaled_line_payout, True,
                         credit winning_combo_key scaled_line_payout contributions)))
       else Inr acc) = Inr acc'"
    by (auto simp: pay_line_def ebind_eq_Inr_iff)
  from check_line_win_zero [OF assms(1) this(1)] have "r = (0, None)" .
  with r show ?thesis by simp
qed

lemma pay_lines_zero:
  assumes "\<forall>k v. line_pays self k = Some v \<longrightarrow> v = Num 0"
    and "efold (pay_line self ex) lines acc = Inr acc'"
  shows "acc' = acc"
  using assms(2)
proof (rule efold_preserves [rotated 2])
  fix payline a a'
  assume "pay_line self ex payline a = Inr a'" and "a = acc"
  with pay_line_zero [OF assms(1)] show "a' = acc" by blast
next
  show "acc = acc" by simp
qed

lemma spec_scatter_credit_zero:
  assumes "\<forall>tbl n v. scatter_pays self S = Some tbl \<longrightarrow> tbl n = Some v \<longrightarrow> v = Num 0"
  shows "sum_list (map snd (spec_scatter_credit self S n)) = 0"
proof (cases "scatter_pays self S")
  case None
  then show ?thesis by (simp add: spec_scatter_credit_def)
next
  case (Some tbl)
  show ?thesis
  proof (cases "tbl n")
    case None
    with Some show ?thesis by (simp add: spec_scatter_credit_def)
  next
    case (Some v)
    with assms \<open>scatter_pays self S = Some tbl\<close> have "v = Num 0" by blast
    with Some \<open>scatter_pays self S = Some tbl\<close> show ?thesis
      by (simp add: spec_scatter_credit_def)
  qed
qed

lemma spec_scatter_credit_empty:
  assumes "\<forall>tbl. scatter_pays self S = Some tbl \<longrightarrow> tbl = Map.empty"
  shows "spec_scatter_credit self S n = []"
proof (cases "scatter_pays self S")
  case None
  then show ?thesis by (simp add: spec_scatter_credit_def)
next
  case (Some tbl)
  with assms have "tbl = Map.empty" by blast
  with Some show ?thesis by (simp add: spec_scatter_credit_def)
qed

lemma pay_scatters_zero:
  assumes "\<forall>S tbl n v. scatter_pays self S = Some tbl \<longrightarrow> tbl n = Some v \<longrightarrow> v = Num 0"
    and "pay_scatters self scr (p, w, l) = Inr (p', w', l')"
  shows "p' = p"
    and "(\<forall>S tbl. scatter_pays self S = Some tbl \<longrightarrow> tbl = Map.empty) \<Longrightarrow> w' = w"
proof -
  from assms(2) obtain acc1 k where
    1: "pay_scatter self ''DollarScatter'' (dollar_scatter_count scr) (p, w, l) = Inr acc1"
    and 2: "pay_scatter self ''StarScatter'' k acc1 = Inr (p', w', l')"
    by (auto simp: pay_scatters_def ebind_eq_Inr_iff)
  let ?cD = "spec_scatter_credit self ''DollarScatter'' (dollar_scatter_count scr)"
  let ?cS = "spec_scatter_credit self ''StarScatter'' k"
  from pay_scatter_credit [OF 1]
  have acc1: "acc1 = (p + sum_list (map snd ?cD), w \<or> ?cD \<noteq> [], apply_credits ?cD l)" .
  from pay_scatter_credit [OF 2 [unfolded acc1]]
  have p': "p' = p + sum_list (map snd ?cD) + sum_list (map snd ?cS)"
    and w': "w' = ((w \<or> ?cD \<noteq> []) \<or> ?cS \<noteq> [])"
    by simp_all
  from assms(1) have "sum_list (map snd ?cD) = 0" "sum_list (map snd ?cS) = 0"
    by (intro spec_scatter_credit_zero; blast)+
  with p' show "p' = p" by simp
  assume "\<forall>S tbl. scatter_pays self S = Some tbl \<longrightarrow> tbl = Map.empty"
  then have "?cD = []" "?cS = []"
    by (intro spec_scatter_credit_empty; blast)+
  with w' show "w' = w" by simp
qed

lemma evaluate_spin_zero:
  assumes "\<forall>k v. line_pays self k = Some v \<longrightarrow> v = Num 0"
    and "\<forall>S tbl n v. scatter_pays self S = Some tbl \<longrightarrow> tbl n = Some v \<longrightarrow> v = Num 0"
    and "evaluate_spin self scr l = Inr (p, w, l')"
  shows "p = 0"
    and "(\<forall>S tbl. scatter_pays self S = Some tbl \<longrightarrow> tbl = Map.empty) \<Longrightarrow> \<not> w"
proof -
  from assms(3) obtain ex acc where
    sc: "pay_scatters self scr (0, False, l) = Inr acc"
    and ln: "efold (pay_line self ex) (paylines self) acc = Inr (p, w, l')"
    by (auto simp: evaluate_spin_def ebind_eq_Inr_iff)
  from pay_lines_zero [OF assms(1) ln] have acc: "acc = (p, w, l')" by simp
  from pay_scatters_zero(1) [OF assms(2) sc [unfolded acc]] show "p = 0" by simp
  assume "\<forall>S tbl. scatter_pays self S = Some tbl \<longrightarrow> tbl = Map.empty"
  from pay_scatters_zero(2) [OF assms(2) sc [unfolded acc] this] show "\<not> w" by simp
qed

lemma spec_scatter_credit_entry:
  assumes "\<forall>tbl n v. scatter_pays self S = Some tbl \<longrightarrow> tbl n = Some v \<longrightarrow> v = Num 0"
  shows "spec_scatter_credit self S n \<noteq> [] \<longleftrightarrow>
     (case scatter_pays self S of None \<Rightarrow> False | Some tbl \<Rightarrow> tbl n \<noteq> None)"
proof (cases "scatter_pays self S")
  case None
  then show ?thesis by (simp add: spec_scatter_credit_def)
next
  case (Some tbl)
  show ?thesis
  proof (cases "tbl n")
    case None
    with Some show ?thesis by (simp add: spec_scatter_credit_def)
  next
    case (Some v)
    with assms \<open>scatter_pays self S = Some tbl\<close> have "v = Num 0" by blast
    with Some \<open>scatter_pays self S = Some tbl\<close> show ?thesis
      by (simp add: spec_scatter_credit_def)
  qed
qed

lemma pay_scatters_zero_hit:
  assumes "\<forall>S tbl n v. scatter_pays self S = Some tbl \<longrightarrow> tbl n = Some v \<longrightarrow> v = Num 0"
    and "pay_scatters self scr (p, False, l) = Inr (p', w', l')"
  shows "w' \<longleftrightarrow> scatter_entry_hit self scr"
proof -
  from assms(2) obtain acc1 k where
    1: "pay_scatter self ''DollarScatter'' (dollar_scatter_count scr) (p, False, l) = Inr acc1"
    and k: "star_scatter_count self scr = Inr k"
    and 2: "pay_scatter self ''StarScatter'' k acc1 = Inr (p', w', l')"
    by (auto simp: pay_scatters_def ebind_eq_Inr_iff)
  let ?cD = "spec_scatter_credit self ''DollarScatter'' (dollar_scatter_count scr)"
  let ?cS = "spec_scatter_credit self ''StarScatter'' k"
  from pay_scatter_credit [OF 1]
  have acc1: "acc1 = (p + sum_list (map snd ?cD), False \<or> ?cD \<noteq> [], apply_credits ?cD l)" .
  from pay_scatter_credit [OF 2 [unfolded acc1]]
  have w': "w' = (?cD \<noteq> [] \<or> ?cS \<noteq> [])" by simp
  have d: "?cD \<noteq> [] \<longleftrightarrow>
      (case scatter_pays self ''DollarScatter'' of
         None \<Rightarrow> False | Some tbl \<Rightarrow> tbl (dollar_scatter_count scr) \<noteq> None)"
    using assms(1) by (intro spec_scatter_credit_entry) blast
  have s: "?cS \<noteq> [] \<longleftrightarrow>
      (case scatter_pays self ''StarScatter'' of None \<Rightarrow> False | Some tbl \<Rightarrow> tbl k \<noteq> None)"
    using assms(1) by (intro spec_scatter_credit_entry) blast
  show ?thesis
    unfolding w' d s scatter_entry_hit_def k by (simp cong: option.case_cong)
qed

lemma evaluate_spin_zero_hit:
  assumes "\<forall>k v. line_pays self k = Some v \<longrightarrow> v = Num 0"
    and "\<forall>S tbl n v. scatter_pays self S = Some tbl \<longrightarrow> tbl n = Some v \<longrightarrow> v = Num 0"
    and "evaluate_spin self scr l = Inr (p, w, l')"
  shows "w \<longleftrightarrow> scatter_entry_hit self scr"
proof -
  from assms(3) obtain ex acc where
    sc: "pay_scatters self scr (0, False, l) = Inr acc"
    and ln: "efold (pay_line self ex) (paylines self) acc = Inr (p, w, l')"
    by (auto simp: evaluate_spin_def ebind_eq_Inr_iff)
  from pay_lines_zero [OF assms(1) ln] have acc: "acc = (p, w, l')" by simp
  from pay_scatters_zero_hit [OF assms(2) sc [unfolded acc]] show ?thesis .
qed

subsection \<open>The loop over the spins\<close>

lemma spin_reels_with_totals:
  "spin_reels (with_totals self t q N k m l) d = spin_reels self d"
  by (simp add: spin_reels_def with_totals_def)

lemma with_totals_update:
  "(with_totals self t q N k m l)\<lparr>total_payout := t', sum_of_squared_payouts := q'\<rparr> =
     with_totals self t' q' N k m l"
  "(with_totals self t q N k m l)\<lparr>total_winning_spins := k'\<rparr> = with_totals self t q N k' m l"
  "(with_totals self t q N k m l)\<lparr>max_win := m'\<rparr> = with_totals self t q N k m' l"
  "total_payout (with_totals self t q N k m l) = t"
  "sum_of_squared_payouts (with_totals self t q N k m l) = q"
  "total_spins (with_totals self t q N k m l) = N"
  "total_winning_spins (with_totals self t q N k m l) = k"
  "max_win (with_totals self t q N k m l) = m"
  "payout_contributions (with_totals self t q N k m l) = l"
  "total_bet_per_spin (with_totals self t q N k m l) = total_bet_per_spin self"
  by (simp_all add: with_totals_def)

lemma spin_once_with_totals:
  "spin_once d (with_totals self t q N k m l) =
     ebind (spin_reels self d) (\<lambda>scr.
     ebind (evaluate_spin self scr l) (\<lambda>(p, w, l').
       Inr (with_totals self (t + p) (q + p ^ 2) N (if w then k + 1 else k)
              (if p > m then p else m) l')))"
proof (cases "spin_reels self d")
  case (Inl e)
  then show ?thesis by (simp add: spin_once_def spin_reels_with_totals)
next
  case (Inr scr)
  show ?thesis
  proof (cases "evaluate_spin self scr l")
    case (Inl e)
    with Inr show ?thesis
      by (simp add: spin_once_def spin_reels_with_totals calculate_spin_payout_with_totals)
  next
    case (Inr r)
    obtain p w l' where r: "r = (p, w, l')" by (cases r)
    with Inr \<open>spin_reels self d = Inr scr\<close> show ?thesis
      by (simp add: spin_once_def spin_reels_with_totals calculate_spin_payout_with_totals
          Let_def with_totals_update)
  qed
qed

lemma run_simulation_with_totals:
  "run_simulation self num_spins rng =
     ebind (run_spins rng num_spins (with_totals self 0 0 num_spins 0 0 Map.empty))
       calculate_results"
  by (simp add: run_simulation_def with_totals_def)

lemma run_spins_zero:
  assumes "\<forall>k v. line_pays self k = Some v \<longrightarrow> v = Num 0"
    and "\<forall>S tbl n v. scatter_pays self S = Some tbl \<longrightarrow> tbl n = Some v \<longrightarrow> v = Num 0"
    and "run_spins rng num_spins (with_totals self 0 0 N k 0 l) = Inr s'"
  shows "\<exists>k' l'. s' = with_totals self 0 0 N k' 0 l' \<and>
     ((\<forall>S tbl. scatter_pays self S = Some tbl \<longrightarrow> tbl = Map.empty) \<longrightarrow> k' = k)"
proof -
  let ?P = "\<lambda>s. \<exists>k' l'. s = with_totals self 0 0 N k' 0 l' \<and>
     ((\<forall>S tbl. scatter_pays self S = Some tbl \<longrightarrow> tbl = Map.empty) \<longrightarrow> k' = k)"
  have "efold (\<lambda>i. spin_once (rng i)) [0..<nat num_spins] (with_totals self 0 0 N k 0 l) = Inr s'"
    using assms(3) by (simp add: run_spins_def)
  then show ?thesis
  proof (rule efold_preserves [where P = ?P, rotated 2])
    show "?P (with_totals self 0 0 N k 0 l)" by blast
  next
    fix i s s''
    assume step: "spin_once (rng i) s = Inr s''" and "?P s"
    then obtain k' l' where s: "s = with_totals self 0 0 N k' 0 l'"
      and k': "(\<forall>S tbl. scatter_pays self S = Some tbl \<longrightarrow> tbl = Map.empty) \<longrightarrow> k' = k"
      by blast
    from step [unfolded s spin_once_with_totals]
    obtain scr p w l'' where ev: "evaluate_spin self scr l' = Inr (p, w, l'')"
      and s'': "s'' = with_totals self (0 + p) (0 + p ^ 2) N (if w then k' + 1 else k')
              (if p > 0 then p else 0) l''"
      by (auto simp: ebind_eq_Inr_iff)
    from evaluate_spin_zero(1) [OF assms(1,2) ev] have p: "p = 0" .
    have "(\<forall>S tbl. scatter_pays self S = Some tbl \<longrightarrow> tbl = Map.empty) \<longrightarrow> \<not> w"
      using evaluate_spin_zero(2) [OF assms(1,2) ev] by blast
    with k' have "(\<forall>S tbl. scatter_pays self S = Some tbl \<longrightarrow> tbl = Map.empty) \<longrightarrow>
        (if w then k' + 1 else k') = k" by simp
    moreover have "s'' = with_totals self 0 0 N (if w then k' + 1 else k') 0 l''"
      using s'' p by simp
    ultimately show "?P s''" by blast
  qed
qed

lemma spin_loop_zero_hits:
  assumes "\<forall>k v. line_pays self k = Some v \<longrightarrow> v = Num 0"
    and "\<forall>S tbl n v. scatter_pays self S = Some tbl \<longrightarrow> tbl n = Some v \<longrightarrow> v = Num 0"
  shows "efold (\<lambda>i. spin_once (rng i)) [0..<m] (with_totals self 0 0 N 0 0 l) = Inr s' \<Longrightarrow>
     \<exists>l'. s' = with_totals self 0 0 N
              (length (filter (\<lambda>i. spin_hits self (rng i)) [0..<m])) 0 l'"
proof (induction m arbitrary: s')
  case 0
  then show ?case by auto
next
  case (Suc m)
  let ?h = "length (filter (\<lambda>i. spin_hits self (rng i)) [0..<m])"
  from Suc.prems obtain s1 where
    1: "efold (\<lambda>i. spin_once (rng i)) [0..<m] (with_totals self 0 0 N 0 0 l) = Inr s1"
    and 2: "spin_once (rng m) s1 = Inr s'"
    by (auto simp: efold_append efold_single ebind_eq_Inr_iff)
  from Suc.IH [OF 1] obtain l1 where s1: "s1 = with_totals self 0 0 N ?h 0 l1" by blast
  from 2 [unfolded s1 spin_once_with_totals]
  obtain scr p w l2 where scr: "spin_reels self (rng m) = Inr scr"
    and ev: "evaluate_spin self scr l1 = Inr (p, w, l2)"
    and s': "s' = with_totals self (0 + p) (0 + p ^ 2) N (if w then ?h + 1 else ?h)
              (if p > 0 then p else 0) l2"
    by (auto simp: ebind_eq_Inr_iff)
  from evaluate_spin_zero(1) [OF assms ev] have p: "p = 0" .
  from evaluate_spin_zero_hit [OF assms ev] scr have w: "w \<longleftrightarrow> spin_hits self (rng m)"
    by (simp add: spin_hits_def)
  have "length (filter (\<lambda>i. spin_hits self (rng i)) [0..<Suc m]) = (if w then ?h + 1 else ?h)"
    by (simp add: w)
  with s' p have "s' = with_totals self 0 0 N
      (length (filter (\<lambda>i. spin_hits self (rng i)) [0..<Suc m])) 0 l2" by simp
  then show ?case by blast
qed

lemma calculate_results_zero:
  assumes "calculate_results (with_totals self 0 0 N k 0 l) = Inr rep"
  shows "rtp rep = 0" and "variance rep = 0" and "std_dev rep = 0"
    and "rep_total_payout rep = 0"
    and "hit_frequency rep = of_nat k / of_int N * 100"
  using assms
  by (auto simp: calculate_results_def with_totals_update ebind_eq_Inr_iff py_truediv_def
      math_sqrt_def Let_def split: if_splits)

lemma init_zero_paytable:
  assumes "init rank cfg = Inr self"
    and "\<forall>(t, data) \<in> set (cfg_paytable cfg). \<forall>(k, v) \<in> set data. isdigit k \<longrightarrow> v = Num 0"
  shows "\<forall>k v. line_pays self k = Some v \<longrightarrow> v = Num 0"
    and "\<forall>S tbl n v. scatter_pays self S = Some tbl \<longrightarrow> tbl n = Some v \<longrightarrow> v = Num 0"
proof -
  from init_lookups [OF assms(1)] obtain b p where
    p: "parse_paytable rank (attributes cfg b) = Inr p"
    and lp: "line_pays self = line_pays p"
    and sp: "scatter_pays self = scatter_pays p" by blast
  have pt: "paytable (attributes cfg b) = cfg_paytable cfg" by (simp add: attributes_def)
  show "\<forall>k v. line_pays self k = Some v \<longrightarrow> v = Num 0"
  proof (intro allI impI)
    fix k v
    assume kv: "line_pays self k = Some v"
    obtain t n where k: "k = (t, n)" by (cases k)
    from kv have "line_pays p (t, n) = Some v"
      by (simp add: lp k)
    from parse_paytable_line_pays [OF p this]
    obtain data c where "(t, data) \<in> set (cfg_paytable cfg)" "(c, v) \<in> set data" "isdigit c"
      by (auto simp: pt)
    with assms(2) show "v = Num 0" by fastforce
  qed
  show "\<forall>S tbl n v. scatter_pays self S = Some tbl \<longrightarrow> tbl n = Some v \<longrightarrow> v = Num 0"
  proof (intro allI impI)
    fix S tbl n v
    assume "scatter_pays self S = Some tbl" and v: "tbl n = Some v"
    then have "scatter_pays p S = Some tbl" by (simp add: sp)
    from parse_paytable_scatter_pays [OF p this]
    obtain data where d: "(S, data) \<in> set (cfg_paytable cfg)" and tbl: "digit_dict data = Inr tbl"
      by (auto simp: pt)
    from digit_dict_value [OF tbl v] obtain c where "(c, v) \<in> set data" "isdigit c" by blast
    with assms(2) d show "v = Num 0" by fastforce
  qed
qed

text \<open>
  C6.  For a configuration in which every digit-keyed payout of the paytable is zero,
  a simulator constructed from it and a run of any number of spins (1,000 included)
  that returns a report: the return to player is 0, the variance is 0 and the
  standard deviation is 0.  A scatter entry that pays zero still marks a spin winning,
  and nothing else does: the hit frequency is 100 times the number of spins whose screen
  has a scatter paytable entry for its count, divided by the number of spins.  It is 0
  if the simulator has no scatter paytable with an entry.
\<close>

theorem zero_paytable_report:
  assumes "\<forall>(t, data) \<in> set (cfg_paytable cfg). \<forall>(k, v) \<in> set data. isdigit k \<longrightarrow> v = Num 0"
    and "init rank cfg = Inr self"
    and "run_simulation self num_spins rng = Inr rep"
  shows "rtp rep = 0 \<and> variance rep = 0 \<and> std_dev rep = 0 \<and>
     hit_frequency rep = of_nat (hit_spins self rng num_spins) / of_int num_spins * 100 \<and>
     ((\<forall>S tbl. scatter_pays self S = Some tbl \<longrightarrow> tbl = Map.empty) \<longrightarrow> hit_frequency rep = 0)"
proof -
  note zero = init_zero_paytable [OF assms(2,1)]
  from assms(3) obtain s' where
    run: "run_spins rng num_spins (with_totals self 0 0 num_spins 0 0 Map.empty) = Inr s'"
    and res: "calculate_results s' = Inr rep"
    by (auto simp: run_simulation_with_totals ebind_eq_Inr_iff)
  from run_spins_zero [OF zero run]
  obtain k' l' where s': "s' = with_totals self 0 0 num_spins k' 0 l'"
    and k': "(\<forall>S tbl. scatter_pays self S = Some tbl \<longrightarrow> tbl = Map.empty) \<longrightarrow> k' = 0"
    by blast
  from spin_loop_zero_hits [OF zero run [unfolded run_spins_def]]
  obtain l'' where "s' = with_totals self 0 0 num_spins (hit_spins self rng num_spins) 0 l''"
    unfolding hit_spins_def by blast
  with s' have "total_winning_spins (with_totals self 0 0 num_spins k' 0 l') =
      total_winning_spins
        (with_totals self 0 0 num_spins (hit_spins self rng num_spins) 0 l'')" by simp
  then have hits: "k' = hit_spins self rng num_spins" by (simp add: with_totals_update)
  note r = calculate_results_zero [OF res [unfolded s']]
  from r(5) k' have none: "(\<forall>S tbl. scatter_pays self S = Some tbl \<longrightarrow> tbl = Map.empty) \<longrightarrow>
      hit_frequency rep = 0" by simp
  from r(5) hits
  have "hit_frequency rep = of_nat (hit_spins self rng num_spins) / of_int num_spins * 100"
    by simp
  with r(1,2,3) none show ?thesis by (intro conjI)
qed

lemma run_spins_constant:
  assumes "\<And>d. spin_reels self d = Inr scr"
    and "\<And>l. evaluate_spin self scr l = Inr (0, w, apply_credits cs l)"
  shows "run_spins rng (int n) (with_totals self t q N k 0 l) =
     Inr (with_totals self t q N (if w then k + n else k) 0 ((apply_credits cs ^^ n) l))"
proof (induction n)
  case 0
  show ?case by (simp add: run_spins_def)
next
  case (Suc n)
  have idx: "[0..<nat (int (Suc n))] = [0..<nat (int n)] @ [n]"
    unfolding nat_int by simp
  have "run_spins rng (int (Suc n)) (with_totals self t q N k 0 l) =
      ebind (run_spins rng (int n) (with_totals self t q N k 0 l)) (spin_once (rng n))"
    unfolding run_spins_def idx efold_append efold_single by simp
  also have "\<dots> = spin_once (rng n)
      (with_totals self t q N (if w then k + n else k) 0 ((apply_credits cs ^^ n) l))"
    by (simp add: Suc)
  also have "\<dots> = Inr (with_totals self t q N (if w then k + Suc n else k) 0
      ((apply_credits cs ^^ Suc n) l))"
    by (simp add: spin_once_with_totals assms)
  finally show ?case .
qed

lemma scatter_strips_spin:
  assumes "init rank cfg = Inr self" and "cfg_virtual_reel_strips cfg = scatter_strips"
  shows "spin_reels self d = Inr scatter_screen"
proof -
  from init_fields(1,2,3) [OF assms(1)] assms(2)
  have "virtual_reel_strips self = scatter_strips" "num_reels self = 5" "num_rows self = 3"
    by (simp_all add: scatter_strips_def)
  moreover have "[0..<5] = [0, 1, 2, 3, 4 :: nat]" and "[0..<3] = [0, 1, 2 :: nat]"
    by (simp_all add: upt_conv_Cons)
  ultimately show ?thesis
    by (simp add: spin_reels_def scatter_strips_def scatter_screen_def randrange_def
        py_nth_def py_index_def py_mod_def)
qed

lemma constant_run:
  assumes "\<And>d. spin_reels self d = Inr scr"
    and "map_sum id (\<lambda>(p, w, l). (p, w)) (evaluate_spin self scr Map.empty) = Inr (0, w)"
  shows "\<exists>l. run_spins rng (int n) (with_totals self 0 0 N 0 0 Map.empty) =
     Inr (with_totals self 0 0 N (if w then n else 0) 0 l)"
proof -
  from evaluate_spin_step [of self scr] assms(2)
  obtain cs where "\<And>l. evaluate_spin self scr l = Inr (0, w, apply_credits cs l)"
    by (cases "evaluate_spin self scr Map.empty") auto
  from run_spins_constant [OF assms(1) this, of rng n 0 0 N 0 Map.empty]
  show ?thesis by auto
qed

lemma zero_config_init: "init name_length zero_config = Inr (projr (init name_length zero_config))"
  by (rule init_projr)
    (simp_all add: zero_config_def base_game_config_def dict_get_def config_keys)

lemma zero_config_spin:
  "map_sum id (\<lambda>(p, w, l). (p, w))
     (evaluate_spin (projr (init name_length zero_config)) scatter_screen Map.empty) = Inr (0, True)"
  by code_simp

lemma zero_config_bet: "total_bet_per_spin (projr (init name_length zero_config)) = 10"
  using init_fields(6) [OF zero_config_init]
  by (simp add: zero_config_def base_game_config_def dict_get_def)

lemma scatter_strips_run:
  assumes "init rank cfg = Inr self" and "cfg_virtual_reel_strips cfg = scatter_strips"
    and "total_bet_per_spin self = 10"
    and "map_sum id (\<lambda>(p, w, l). (p, w)) (evaluate_spin self scatter_screen Map.empty) =
         Inr (0, w)"
  shows "\<exists>l. run_simulation self 1000 rng =
     Inr \<lparr>rep_total_spins = 1000, rep_total_bet = 10000, rep_total_payout = 0, rtp = 0,
          variance = 0, std_dev = 0, hit_frequency = (if w then 100 else 0),
          average_win_amount = 0, rep_max_win = 0, rep_contributions = l\<rparr>"
proof -
  have reels: "\<And>d. spin_reels self d = Inr scatter_screen"
    by (rule scatter_strips_spin [OF assms(1,2)])
  from constant_run [OF reels assms(4), of rng 1000 1000]
  obtain l where "run_spins rng 1000 (with_totals self 0 0 1000 0 0 Map.empty) =
     Inr (with_totals self 0 0 1000 (if w then 1000 else 0) 0 l)" by auto
  then have "run_simulation self 1000 rng =
      calculate_results (with_totals self 0 0 1000 (if w then 1000 else 0) 0 l)"
    by (simp add: run_simulation_with_totals)
  also have "\<dots> = Inr \<lparr>rep_total_spins = 1000, rep_total_bet = 10000, rep_total_payout = 0,
          rtp = 0, variance = 0, std_dev = 0, hit_frequency = (if w then 100 else 0),
          average_win_amount = 0, rep_max_win = 0, rep_contributions = l\<rparr>"
    by (simp add: calculate_results_def with_totals_update assms(3) py_truediv_def
        math_sqrt_def)
  finally show ?thesis by blast
qed

lemma zero_config_run:
  "\<exists>l. run_simulation (projr (init name_length zero_config)) 1000 rng =
     Inr \<lparr>rep_total_spins = 1000, rep_total_bet = 10000, rep_total_payout = 0, rtp = 0,
          variance = 0, std_dev = 0, hit_frequency = 100, average_win_amount = 0,
          rep_max_win = 0, rep_contributions = l\<rparr>"
  using scatter_strips_run [OF zero_config_init _ zero_config_bet zero_config_spin, of rng]
  by (simp add: zero_config_def base_game_config_def)

lemma zero_line_config_init: "init name_length zero_line_config = Inr (projr (init name_length zero_line_config))"
  by (rule init_projr)
    (simp_all add: zero_line_config_def base_game_config_def dict_get_def config_keys)

lemma zero_line_config_spin:
  "map_sum id (\<lambda>(p, w, l). (p, w))
     (evaluate_spin (projr (init name_length zero_line_config)) scatter_screen Map.empty) = Inr (0, False)"
  by code_simp

lemma zero_line_config_bet: "total_bet_per_spin (projr (init name_length zero_line_config)) = 10"
  using init_fields(6) [OF zero_line_config_init]
  by (simp add: zero_line_config_def base_game_config_def dict_get_def)

lemma zero_line_config_run:
  "\<exists>l. run_simulation (projr (init name_length zero_line_config)) 1000 rng =
     Inr \<lparr>rep_total_spins = 1000, rep_total_bet = 10000, rep_total_payout = 0, rtp = 0,
          variance = 0, std_dev = 0, hit_frequency = 0, average_win_amount = 0,
          rep_max_win = 0, rep_contributions = l\<rparr>"
  using scatter_strips_run [OF zero_line_config_init _ zero_line_config_bet
      zero_line_config_spin, of rng]
  by (simp add: zero_line_config_def base_game_config_def)

lemma zero_line_config_no_scatter:
  "\<forall>S tbl. scatter_pays (projr (init name_length zero_line_config)) S = Some tbl \<longrightarrow> tbl = Map.empty"
proof -
  from init_lookups [OF zero_line_config_init] obtain b p where
    p: "parse_paytable name_length (attributes zero_line_config b) = Inr p"
    and sp: "scatter_pays (projr (init name_length zero_line_config)) = scatter_pays p" by blast
  have "dom (scatter_pays p) = {}"
    unfolding parse_paytable_scatter_dom [OF p]
    by (auto simp: attributes_def zero_line_config_def base_game_config_def dict_get_def)
  with sp show ?thesis by (auto simp: dom_def)
qed

lemma zero_miss_config_init:
  "init name_length zero_miss_config = Inr (projr (init name_length zero_miss_config))"
  by (rule init_projr)
    (simp_all add: zero_miss_config_def base_game_config_def dict_get_def config_keys)

lemma zero_miss_config_spin:
  "map_sum id (\<lambda>(p, w, l). (p, w))
     (evaluate_spin (projr (init name_length zero_miss_config)) scatter_screen Map.empty) =
     Inr (0, False)"
  by code_simp

lemma zero_miss_config_bet: "total_bet_per_spin (projr (init name_length zero_miss_config)) = 10"
  using init_fields(6) [OF zero_miss_config_init]
  by (simp add: zero_miss_config_def base_game_config_def dict_get_def)

lemma zero_miss_config_run:
  "\<exists>l. run_simulation (projr (init name_length zero_miss_config)) 1000 rng =
     Inr \<lparr>rep_total_spins = 1000, rep_total_bet = 10000, rep_total_payout = 0, rtp = 0,
          variance = 0, std_dev = 0, hit_frequency = 0, average_win_amount = 0,
          rep_max_win = 0, rep_contributions = l\<rparr>"
  using scatter_strips_run [OF zero_miss_config_init _ zero_miss_config_bet
      zero_miss_config_spin, of rng]
  by (simp add: zero_miss_config_def base_game_config_def)

lemma zero_miss_config_entries:
  "map_option (\<lambda>tbl. tbl 4)
     (scatter_pays (projr (init name_length zero_miss_config)) ''DollarScatter'') =
     Some (Some (Num 0))"
  by code_simp

theorem zero_paytable_report_witness:
  "init name_length zero_config = Inr (projr (init name_length zero_config)) \<and>
   \<not> isl (run_simulation (projr (init name_length zero_config)) 1000 zero_draws) \<and>
   rtp (projr (run_simulation (projr (init name_length zero_config)) 1000 zero_draws)) = 0 \<and>
   variance (projr (run_simulation (projr (init name_length zero_config)) 1000 zero_draws)) = 0 \<and>
   hit_spins (projr (init name_length zero_config)) zero_draws 1000 = 1000 \<and>
   init name_length zero_line_config = Inr (projr (init name_length zero_line_config)) \<and>
   \<not> isl (run_simulation (projr (init name_length zero_line_config)) 1000 zero_draws) \<and>
   hit_frequency (projr (run_simulation (projr (init name_length zero_line_config)) 1000 zero_draws)) = 0 \<and>
   init name_length zero_miss_config = Inr (projr (init name_length zero_miss_config)) \<and>
   \<not> isl (run_simulation (projr (init name_length zero_miss_config)) 1000 zero_draws) \<and>
   map_option (\<lambda>tbl. tbl 4)
     (scatter_pays (projr (init name_length zero_miss_config)) ''DollarScatter'') =
     Some (Some (Num 0)) \<and>
   hit_spins (projr (init name_length zero_miss_config)) zero_draws 1000 = 0 \<and>
   hit_frequency (projr (run_simulation (projr (init name_length zero_miss_config)) 1000 zero_draws)) = 0"
proof -
  let ?s = "projr (init name_length zero_config)" and ?t = "projr (init name_length zero_line_config)"
  let ?u = "projr (init name_length zero_miss_config)"
  let ?r = "run_simulation ?s 1000 zero_draws" and ?q = "run_simulation ?t 1000 zero_draws"
  let ?m = "run_simulation ?u 1000 zero_draws"
  have z1: "\<forall>(t, data) \<in> set (cfg_paytable zero_config). \<forall>(k, v) \<in> set data.
      isdigit k \<longrightarrow> v = Num 0"
    by (simp add: zero_config_def)
  have z2: "\<forall>(t, data) \<in> set (cfg_paytable zero_line_config). \<forall>(k, v) \<in> set data.
      isdigit k \<longrightarrow> v = Num 0"
    by (simp add: zero_line_config_def)
  have z3: "\<forall>(t, data) \<in> set (cfg_paytable zero_miss_config). \<forall>(k, v) \<in> set data.
      isdigit k \<longrightarrow> v = Num 0"
    by (simp add: zero_miss_config_def)
  from zero_config_run [of zero_draws] have r: "?r = Inr (projr ?r)"
    and rh: "hit_frequency (projr ?r) = 100" by auto
  from zero_line_config_run [of zero_draws] have q: "?q = Inr (projr ?q)" by auto
  from zero_miss_config_run [of zero_draws] have m: "?m = Inr (projr ?m)" by auto
  note t1 = zero_paytable_report [OF z1 zero_config_init r]
  from t1 have 1: "rtp (projr ?r) = 0" by (elim conjE)
  from t1 have 2: "variance (projr ?r) = 0" by (elim conjE)
  from t1 have "hit_frequency (projr ?r) = of_nat (hit_spins ?s zero_draws 1000) / of_int 1000 * 100"
    by (elim conjE)
  with rh have 3: "hit_spins ?s zero_draws 1000 = 1000" by simp
  note t2 = zero_paytable_report [OF z2 zero_line_config_init q]
  from t2 have "(\<forall>S tbl. scatter_pays ?t S = Some tbl \<longrightarrow> tbl = Map.empty) \<longrightarrow>
      hit_frequency (projr ?q) = 0" by (elim conjE)
  with zero_line_config_no_scatter have 4: "hit_frequency (projr ?q) = 0" by (rule rev_mp)
  note t3 = zero_paytable_report [OF z3 zero_miss_config_init m]
  from t3 have h3: "hit_frequency (projr ?m) =
      of_nat (hit_spins ?u zero_draws 1000) / of_int 1000 * 100" by (elim conjE)
  from zero_miss_config_run [of zero_draws] have 5: "hit_frequency (projr ?m) = 0" by auto
  with h3 have 6: "hit_spins ?u zero_draws 1000 = 0" by simp
  from r have 7: "\<not> isl ?r" by (metis sum.disc(2))
  from q have 8: "\<not> isl ?q" by (metis sum.disc(2))
  from m have 9: "\<not> isl ?m" by (metis sum.disc(2))
  from zero_config_init 7 1 2 3 zero_line_config_init 8 4 zero_miss_config_init 9
    zero_miss_config_entries 6 5
  show ?thesis by (intro conjI)
qed

text \<open>
  A run of 1,000 spins of \<open>zero_config\<close>: every payout of the paytable is zero, every
  screen shows three DollarScatter cells, and the hit frequency is 100.
\<close>

theorem zero_scatter_entry_hits:
  "map_sum id hit_frequency (simulate name_length zero_config 1000 zero_draws) = Inr 100"
proof -
  have "simulate name_length zero_config 1000 zero_draws =
      run_simulation (projr (init name_length zero_config)) 1000 zero_draws"
    unfolding simulate_def by (subst zero_config_init) simp
  with zero_config_run [of zero_draws] show ?thesis by auto
qed

subsection \<open>The standard deviation\<close>

lemma tenth_config_init: "init name_length tenth_config = Inr (projr (init name_length tenth_config))"
  by (rule init_projr)
    (simp_all add: tenth_config_def base_game_config_def dict_get_def config_keys)

lemma tenth_config_bet: "total_bet_per_spin (projr (init name_length tenth_config)) = 10"
  using init_fields(6) [OF tenth_config_init]
  by (simp add: tenth_config_def base_game_config_def dict_get_def)

text \<open>
  C7.  The results are calculated with \<open>math.sqrt(variance)\<close>, without a maximum with
  zero: with a spin count and a total bet other than zero, a computed variance below
  zero makes the calculation fail with the \<open>ValueError\<close> of \<open>math.sqrt\<close>, and no report
  is produced.
\<close>

theorem negative_variance_fails:
  assumes "total_spins self \<noteq> 0" and "total_bet_per_spin self \<noteq> 0"
    and "sum_of_squared_payouts self / of_int (total_spins self) -
         (total_payout self / of_int (total_spins self)) ^ 2 < 0"
  shows "calculate_results self = Inl ValueError"
  using assms by (simp add: calculate_results_def py_truediv_def math_sqrt_def Let_def)

theorem negative_variance_fails_witness:
  "total_spins tenth_totals = 3 \<and> total_bet_per_spin tenth_totals = 10 \<and>
   sum_of_squared_payouts tenth_totals / of_int (total_spins tenth_totals) -
     (total_payout tenth_totals / of_int (total_spins tenth_totals)) ^ 2 < 0 \<and>
   calculate_results tenth_totals = Inl ValueError"
proof -
  have 1: "total_spins tenth_totals = 3"
    and 2: "total_bet_per_spin tenth_totals = 10"
    and 3: "sum_of_squared_payouts tenth_totals / of_int (total_spins tenth_totals) -
     (total_payout tenth_totals / of_int (total_spins tenth_totals)) ^ 2 < 0"
    by (simp_all add: tenth_totals_def with_totals_update tenth_config_bet power2_eq_square)
  from 1 have 4: "total_spins tenth_totals \<noteq> 0" by simp
  from 2 have 5: "total_bet_per_spin tenth_totals \<noteq> 0" by simp
  from negative_variance_fails [OF 4 5 3] 1 2 3 show ?thesis by (intro conjI)
qed

text \<open>
  In exact arithmetic every spin of that game pays exactly one tenth, so the totals of
  three spins have the variance 0: the totals above come from rounding.
\<close>

lemma tenth_config_spin_exact:
  "map_sum id (\<lambda>(p, w, l). (p, w))
     (evaluate_spin (projr (init name_length tenth_config))
        [[''DollarScatter'', ''DollarScatter'', ''DollarScatter''],
         [''DollarScatter'', ''DollarScatter'', ''DollarScatter''],
         [''DollarScatter'', ''DollarScatter'', ''DollarScatter''],
         [''DollarScatter'', ''DollarScatter'', ''DollarScatter''],
         [''DollarScatter'', ''DollarScatter'', ''DollarScatter'']] Map.empty) =
   Inr (1 / 10, True)"
  by code_simp

end
